theory Spec2Isabelle
  imports Complex_Main
begin

section \<open>Strings as the code uses them\<close>

text \<open>
  A JavaScript string is modelled as a \<open>string\<close> (a list of characters). The functions below
  are the String and Array methods the sources call: \<open>startsWith\<close>, \<open>endsWith\<close>,
  \<open>includes\<close>, \<open>split\<close> on a one-character separator, \<open>lastIndexOf\<close>,
  \<open>substring(0, e)\<close> and \<open>join\<close>.
\<close>

fun startsWith :: "string \<Rightarrow> string \<Rightarrow> bool" where
  "startsWith s [] = True"
| "startsWith [] (p # ps) = False"
| "startsWith (c # cs) (p # ps) = (c = p \<and> startsWith cs ps)"

definition endsWith :: "string \<Rightarrow> string \<Rightarrow> bool" where
  "endsWith s p = (length p \<le> length s \<and> drop (length s - length p) s = p)"

fun includesStr :: "string \<Rightarrow> string \<Rightarrow> bool" where
  "includesStr [] p = (p = [])"
| "includesStr (c # cs) p = (startsWith (c # cs) p \<or> includesStr cs p)"

text \<open>\<open>s.split(c)\<close>: the pieces between the occurrences of \<open>c\<close>; never the empty array.\<close>

fun split_on :: "char \<Rightarrow> string \<Rightarrow> string list" where
  "split_on c [] = [[]]"
| "split_on c (x # xs) =
     (if x = c then [] # split_on c xs
      else (case split_on c xs of [] \<Rightarrow> [[x]] | p # ps \<Rightarrow> (x # p) # ps))"

text \<open>\<open>s.lastIndexOf(c)\<close>: the index of the last occurrence, \<open>-1\<close> when there is none.\<close>

fun lastIndexOf :: "char \<Rightarrow> string \<Rightarrow> int" where
  "lastIndexOf c [] = -1"
| "lastIndexOf c (x # xs) =
     (let r = lastIndexOf c xs in
      if r \<ge> 0 then r + 1 else if x = c then 0 else -1)"

text \<open>\<open>s.substring(0, e)\<close>: a negative end is clamped to 0.\<close>

definition substring0 :: "string \<Rightarrow> int \<Rightarrow> string" where
  "substring0 s e = take (nat e) s"

fun join :: "string \<Rightarrow> string list \<Rightarrow> string" where
  "join sep [] = []"
| "join sep [p] = p"
| "join sep (p # q # ps) = p @ sep @ join sep (q # ps)"

section \<open>Path resolver\<close>

text \<open>
  \<open>resolveRelativePath\<close> of \<open>schemaRelationships.ts\<close>: the directory of the base path and
  the relative path are split at \<open>/\<close>, empty parts are filtered out, and the parts of the
  relative path are applied to the parts of the directory: \<open>..\<close> pops (nothing on the empty
  array), \<open>.\<close> is skipped, anything else is pushed.
\<close>

definition applyPart :: "string \<Rightarrow> string list \<Rightarrow> string list" where
  "applyPart part resultParts =
     (if part = ''..'' then butlast resultParts
      else if part \<noteq> ''.'' then resultParts @ [part]
      else resultParts)"

definition resolveRelativePath :: "string \<Rightarrow> string \<Rightarrow> string" where
  "resolveRelativePath basePath relativePath =
     (let baseDir = substring0 basePath (lastIndexOf CHR ''/'' basePath);
          baseParts = filter (\<lambda>p. p \<noteq> []) (split_on CHR ''/'' baseDir);
          relParts = filter (\<lambda>p. p \<noteq> []) (split_on CHR ''/'' relativePath)
      in join ''/'' (fold applyPart relParts baseParts))"

text \<open>
  \<open>resolveRefPath(ref, basePath)\<close> of the connection validator. Its relative branch is the
  body of \<open>resolveRelativePath\<close>, written out again in the source.
\<close>

definition resolveRefPath :: "string \<Rightarrow> string \<Rightarrow> string" where
  "resolveRefPath ref basePath =
     (let refPath = hd (split_on CHR ''#'' ref) in
      if startsWith refPath ''../'' \<or> startsWith refPath ''./'' then
        (let baseDir = substring0 basePath (lastIndexOf CHR ''/'' basePath);
             baseParts = filter (\<lambda>p. p \<noteq> []) (split_on CHR ''/'' baseDir);
             relParts = filter (\<lambda>p. p \<noteq> []) (split_on CHR ''/'' refPath)
         in join ''/'' (fold applyPart relParts baseParts))
      else if \<not> includesStr refPath ''/'' then
        (let baseDir = substring0 basePath (lastIndexOf CHR ''/'' basePath)
         in if baseDir \<noteq> [] then baseDir @ ''/'' @ refPath else refPath)
      else refPath)"

text \<open>
  The resolver as the specification words it: strip the fragment; a remainder starting with
  \<open>./\<close> or \<open>../\<close> walks the segments of the base path's directory; a remainder without
  \<open>/\<close> is a sibling file of the base path; anything else passes through.
\<close>

definition spec_strip_fragment :: "string \<Rightarrow> string" where
  "spec_strip_fragment ref = takeWhile (\<lambda>c. c \<noteq> CHR ''#'') ref"

definition spec_directory :: "string \<Rightarrow> string" where
  "spec_directory basePath =
     (if CHR ''/'' \<in> set basePath
      then rev (tl (dropWhile (\<lambda>c. c \<noteq> CHR ''/'') (rev basePath)))
      else [])"

definition spec_segments :: "string \<Rightarrow> string list" where
  "spec_segments s = filter (\<lambda>p. p \<noteq> []) (split_on CHR ''/'' s)"

fun spec_walk :: "string list \<Rightarrow> string list \<Rightarrow> string list" where
  "spec_walk stack [] = stack"
| "spec_walk stack (p # ps) =
     (if p = ''..'' then spec_walk (butlast stack) ps
      else if p = ''.'' then spec_walk stack ps
      else spec_walk (stack @ [p]) ps)"

definition spec_resolve :: "string \<Rightarrow> string \<Rightarrow> string" where
  "spec_resolve basePath ref =
     (let r = spec_strip_fragment ref in
      if startsWith r ''./'' \<or> startsWith r ''../'' then
        join ''/'' (spec_walk (spec_segments (spec_directory basePath)) (spec_segments r))
      else if CHR ''/'' \<notin> set r then
        (if spec_directory basePath = [] then r else spec_directory basePath @ ''/'' @ r)
      else r)"

text \<open>
  \<open>s.toLowerCase()\<close> on the ASCII letters; the paths of a schema catalog are ASCII.
\<close>

definition lowerChar :: "char \<Rightarrow> char" where
  "lowerChar c =
     (case map_of (zip ''ABCDEFGHIJKLMNOPQRSTUVWXYZ'' ''abcdefghijklmnopqrstuvwxyz'') c of
        Some l \<Rightarrow> l | None \<Rightarrow> c)"

definition toLowerCase :: "string \<Rightarrow> string" where
  "toLowerCase s = map lowerChar s"

text \<open>The decimal numeral of a natural number, as a template literal prints a count.\<close>

definition digitChar :: "nat \<Rightarrow> char" where
  "digitChar d = ''0123456789'' ! (d mod 10)"

function decimal :: "nat \<Rightarrow> string" where
  "decimal n = (if n < 10 then [digitChar n] else decimal (n div 10) @ [digitChar (n mod 10)])"
  by pat_completeness auto
termination
  by (relation "measure id") auto

declare decimal.simps [simp del]

section \<open>JSON values and member access\<close>

text \<open>
  Schemas, instance values and imported documents are values of JavaScript's \<open>any\<close> that come
  from JSON. An object is the list of its own properties in enumeration order (the keys of
  one object are distinct). The properties that \<open>Object.prototype\<close> lends to every object
  are not in that list: a read \<open>v.k\<close> of the code names a \<open>k\<close> that is none of them, and
  where the code asks with \<open>in\<close>, \<open>hasProperty\<close> adds them. Numbers are integers here:
  no claim computes with the numbers of a document, only their truthiness is read.
\<close>

datatype json =
    JNull
  | JBool bool
  | JNum int
  | JStr string
  | JArr "json list"
  | JObj "(string \<times> json) list"

text \<open>
  A value that may be \<open>undefined\<close> is a \<open>json option\<close>. The exceptions the code can raise
  are values: \<open>TypeError\<close> for a member read on \<open>null\<close> or \<open>undefined\<close> and for a call of
  a method the value does not have, \<open>RangeError\<close> for an exhausted call stack.
\<close>

datatype js_error = TypeError | RangeError

fun truthy :: "json option \<Rightarrow> bool" where
  "truthy None = False"
| "truthy (Some JNull) = False"
| "truthy (Some (JBool b)) = b"
| "truthy (Some (JNum n)) = (n \<noteq> 0)"
| "truthy (Some (JStr s)) = (s \<noteq> [])"
| "truthy (Some (JArr xs)) = True"
| "truthy (Some (JObj es)) = True"

text \<open>\<open>typeof v === 'object'\<close> for a truthy \<open>v\<close>, and \<open>Array.isArray(v)\<close>.\<close>

fun isObjectType :: "json option \<Rightarrow> bool" where
  "isObjectType (Some (JArr xs)) = True"
| "isObjectType (Some (JObj es)) = True"
| "isObjectType _ = False"

fun isArray :: "json option \<Rightarrow> bool" where
  "isArray (Some (JArr xs)) = True"
| "isArray _ = False"

fun elements :: "json option \<Rightarrow> json list" where
  "elements (Some (JArr xs)) = xs"
| "elements _ = []"

text \<open>\<open>v.k\<close> on a value that is neither \<open>null\<close> nor \<open>undefined\<close>.\<close>

fun getField :: "json \<Rightarrow> string \<Rightarrow> json option" where
  "getField (JObj es) k = map_of es k"
| "getField _ k = None"

text \<open>\<open>v.k\<close>: a \<open>TypeError\<close> on \<open>null\<close> and \<open>undefined\<close>.\<close>

fun member :: "json option \<Rightarrow> string \<Rightarrow> js_error + json option" where
  "member None k = Inl TypeError"
| "member (Some JNull) k = Inl TypeError"
| "member (Some v) k = Inr (getField v k)"

text \<open>\<open>v?.k\<close>: \<open>undefined\<close> on \<open>null\<close> and \<open>undefined\<close>.\<close>

fun optMember :: "json option \<Rightarrow> string \<Rightarrow> json option" where
  "optMember None k = None"
| "optMember (Some JNull) k = None"
| "optMember (Some v) k = getField v k"

text \<open>\<open>typeof v === 'string'\<close>, with the string.\<close>

fun asString :: "json option \<Rightarrow> string option" where
  "asString (Some (JStr s)) = Some s"
| "asString _ = None"

text \<open>
  \<open>Object.keys\<close>/\<open>Object.entries\<close>/object spread of a value of type object: the
  properties of an object, the indexed elements of an array, the indexed characters of a
  string.
\<close>

fun ownEntries :: "json \<Rightarrow> (string \<times> json) list" where
  "ownEntries (JObj es) = es"
| "ownEntries (JArr xs) = zip (map decimal [0..<length xs]) xs"
| "ownEntries (JStr s) = zip (map decimal [0..<length s]) (map (\<lambda>c. JStr [c]) s)"
| "ownEntries _ = []"

text \<open>\<open>target[k] = v\<close> on an object: an existing key keeps its place.\<close>

fun setProp :: "string \<Rightarrow> json \<Rightarrow> (string \<times> json) list \<Rightarrow> (string \<times> json) list" where
  "setProp k v [] = [(k, v)]"
| "setProp k v (p # ps) = (if fst p = k then (k, v) # ps else p # setProp k v ps)"

text \<open>\<open>{...target, ...source}\<close>.\<close>

definition spread :: "(string \<times> json) list \<Rightarrow> (string \<times> json) list \<Rightarrow> (string \<times> json) list" where
  "spread target source = fold (\<lambda>(k, v) acc. setProp k v acc) source target"

text \<open>Sequencing of computations that may throw.\<close>

definition bindE :: "js_error + 'a \<Rightarrow> ('a \<Rightarrow> js_error + 'b) \<Rightarrow> js_error + 'b" where
  "bindE m f = (case m of Inl e \<Rightarrow> Inl e | Inr v \<Rightarrow> f v)"

text \<open>\<open>xs.some(f)\<close> and \<open>xs.every(f)\<close> for a callback that may throw.\<close>

fun someE :: "('a \<Rightarrow> js_error + bool) \<Rightarrow> 'a list \<Rightarrow> js_error + bool" where
  "someE f [] = Inr False"
| "someE f (x # xs) = bindE (f x) (\<lambda>b. if b then Inr True else someE f xs)"

fun everyE :: "('a \<Rightarrow> js_error + bool) \<Rightarrow> 'a list \<Rightarrow> js_error + bool" where
  "everyE f [] = Inr True"
| "everyE f (x # xs) = bindE (f x) (\<lambda>b. if b then everyE f xs else Inr False)"

text \<open>A loop that appends what each round produces, stopping at the first exception.\<close>

fun concatE :: "('a \<Rightarrow> js_error + 'b list) \<Rightarrow> 'a list \<Rightarrow> js_error + 'b list" where
  "concatE f [] = Inr []"
| "concatE f (x # xs) = bindE (f x) (\<lambda>ys. bindE (concatE f xs) (\<lambda>zs. Inr (ys @ zs)))"

section \<open>Schema introspection (\<open>schemaRelationships.ts\<close>)\<close>

definition primitivePatterns :: "string list" where
  "primitivePatterns =
     [''/primitives/'', ''/string.schema.json'', ''/integer.schema.json'',
      ''/number.schema.json'', ''/boolean.schema.json'', ''/binary-flag.schema.json'',
      ''/numeric-string.schema.json'', ''/non-empty-string.schema.json'',
      ''/positive-integer.schema.json'', ''/short-code-string.schema.json'',
      ''/datatype.schema.json'', ''/datatype-enum.schema.json'']"

definition singleFieldPatterns :: "string list" where
  "singleFieldPatterns =
     [''id.schema.json'', ''name.schema.json'', ''description.schema.json'',
      ''key.schema.json'', ''value.schema.json'']"

text \<open>The two loops of \<open>isPrimitiveSchemaPath\<close>, over the lower-cased path and file name.\<close>

definition pathHasPrimitivePattern :: "string \<Rightarrow> bool" where
  "pathHasPrimitivePattern lowerPath =
     list_ex (\<lambda>pattern. includesStr lowerPath (toLowerCase pattern)) primitivePatterns"

definition fileHasSingleFieldSuffix :: "string \<Rightarrow> bool" where
  "fileHasSingleFieldSuffix fileName =
     list_ex (\<lambda>pattern. endsWith fileName pattern) singleFieldPatterns"

definition isPrimitiveSchemaPath :: "string \<Rightarrow> bool" where
  "isPrimitiveSchemaPath schemaPath =
     (if pathHasPrimitivePattern (toLowerCase schemaPath) then True
      else fileHasSingleFieldSuffix (toLowerCase (last (split_on CHR ''/'' schemaPath))))"

definition primitiveTypes :: "string list" where
  "primitiveTypes = [''string'', ''number'', ''integer'', ''boolean'', ''null'']"

text \<open>\<open>primitiveTypes.includes(v)\<close>: only a string can be an element.\<close>

definition isPrimitiveType :: "json option \<Rightarrow> bool" where
  "isPrimitiveType v = (case asString v of Some t \<Rightarrow> t \<in> set primitiveTypes | None \<Rightarrow> False)"

text \<open>The callback \<open>s => s.items?.$ref\<close>, read for its truthiness.\<close>

definition hasItemsRef :: "json \<Rightarrow> js_error + bool" where
  "hasItemsRef s = bindE (member (Some s) ''items'') (\<lambda>items. Inr (truthy (optMember items ''$ref'')))"

text \<open>The callback \<open>s => s.properties\<close>, read for its truthiness.\<close>

definition hasProperties :: "json \<Rightarrow> js_error + bool" where
  "hasProperties s = bindE (member (Some s) ''properties'') (\<lambda>p. Inr (truthy p))"

text \<open>
  The callback of \<open>allOf.every\<close> in \<open>isPrimitiveSchema\<close>. A truthy \<open>$ref\<close> that is not a
  string has no \<open>toLowerCase\<close>: \<open>isPrimitiveSchemaPath\<close> throws.
\<close>

definition allOfEntryPrimitive :: "json \<Rightarrow> js_error + bool" where
  "allOfEntryPrimitive s =
     bindE (member (Some s) ''$ref'') (\<lambda>ref.
       if truthy ref then
         (case asString ref of Some r \<Rightarrow> Inr (isPrimitiveSchemaPath r) | None \<Rightarrow> Inl TypeError)
       else if truthy (getField s ''type'') then Inr (isPrimitiveType (getField s ''type''))
       else Inr True)"

definition isPrimitiveSchema :: "json option \<Rightarrow> js_error + bool" where
  "isPrimitiveSchema schema =
     (if \<not> truthy schema \<or> \<not> isObjectType schema then Inr False
      else if isPrimitiveType (optMember schema ''type'') then Inr True
      else if truthy (optMember schema ''$ref'') \<and> asString (optMember schema ''$ref'') \<noteq> None then
        (case asString (optMember schema ''$ref'') of
           Some r \<Rightarrow> Inr (isPrimitiveSchemaPath r) | None \<Rightarrow> Inr False)
      else if isArray (optMember schema ''allOf'') then
        bindE (someE hasItemsRef (elements (optMember schema ''allOf''))) (\<lambda>hasItems.
          if hasItems then Inr False
          else bindE (someE hasProperties (elements (optMember schema ''allOf''))) (\<lambda>hasObjectProperties.
            if \<not> hasObjectProperties then
              bindE (everyE allOfEntryPrimitive (elements (optMember schema ''allOf''))) (\<lambda>allPrimitive.
                if allPrimitive then Inr True else Inr False)
            else Inr False))
      else Inr False)"

text \<open>The loop over \<open>allOf\<close> in \<open>isArraySchemaWithItems\<close> is \<open>some\<close> with \<open>hasItemsRef\<close>.\<close>

definition isArraySchemaWithItems :: "json option \<Rightarrow> js_error + bool" where
  "isArraySchemaWithItems schema =
     (if \<not> truthy schema \<or> \<not> isObjectType schema then Inr False
      else if asString (optMember schema ''type'') = Some ''array''
              \<and> truthy (optMember (optMember schema ''items'') ''$ref'') then Inr True
      else if truthy (optMember (optMember schema ''items'') ''$ref'') then Inr True
      else if isArray (optMember schema ''allOf'') then
        someE hasItemsRef (elements (optMember schema ''allOf''))
      else Inr False)"

section \<open>Connection rule extractor (\<open>schemaRelationships.ts\<close>)\<close>

datatype cardinality = One | Many

record ConnectionRule =
  propertyPath :: string
  targetSchemaPath :: string
  cardinality :: cardinality
  required :: bool

text \<open>
  \<open>ref.match(/^([^#]+)/)\<close> and its group 1: the longest prefix without \<open>#\<close>, no match when
  that prefix is empty.
\<close>

definition refFilePart :: "string \<Rightarrow> string option" where
  "refFilePart ref =
     (let m = takeWhile (\<lambda>c. c \<noteq> CHR ''#'') ref in if m = [] then None else Some m)"

text \<open>
  The block that follows \<open>let refPath = match[1]\<close> in each of the three branches of
  \<open>processProperty\<close>.
\<close>

definition resolveRuleRef :: "string \<Rightarrow> string \<Rightarrow> string" where
  "resolveRuleRef schemaPath refPath =
     (if startsWith refPath ''../'' \<or> startsWith refPath ''./'' then
        resolveRelativePath schemaPath refPath
      else if \<not> includesStr refPath ''/'' then
        (let baseDir = substring0 schemaPath (lastIndexOf CHR ''/'' schemaPath)
         in if baseDir \<noteq> [] then baseDir @ ''/'' @ refPath else refPath)
      else refPath)"

text \<open>
  The catalog is a \<open>Record<string, object>\<close>: the list of its entries, in the order of
  \<open>Object.keys\<close>. \<open>findSchema\<close> is the lookup of the direct and of the pattern branch:
  \<open>schemas?.[refPath]\<close>, and when that is falsy the first key that ends with the path or
  that the path ends with; an empty key is falsy and not used.
\<close>

type_synonym catalog = "(string \<times> json) list"

definition findSchema :: "catalog option \<Rightarrow> string \<Rightarrow> string \<times> json option" where
  "findSchema schemas refPath =
     (case schemas of
        None \<Rightarrow> (refPath, None)
      | Some cat \<Rightarrow>
          if truthy (map_of cat refPath) then (refPath, map_of cat refPath)
          else (case find (\<lambda>key. endsWith key refPath \<or> endsWith refPath key) (map fst cat) of
                  Some matchingKey \<Rightarrow>
                    if matchingKey \<noteq> [] then (matchingKey, map_of cat matchingKey)
                    else (refPath, map_of cat refPath)
                | None \<Rightarrow> (refPath, map_of cat refPath)))"

text \<open>
  \<open>new Set(schema.required || [])\<close>: the elements of an array, the characters of a string;
  any other truthy value is not iterable.
\<close>

definition requiredFields :: "json option \<Rightarrow> js_error + json list" where
  "requiredFields r =
     (if \<not> truthy r then Inr []
      else (case r of
              Some (JArr xs) \<Rightarrow> Inr xs
            | Some (JStr s) \<Rightarrow> Inr (map (\<lambda>c. JStr [c]) s)
            | _ \<Rightarrow> Inl TypeError))"

text \<open>The direct \<open>$ref\<close> branch, entered with the string \<open>propValue.$ref\<close>.\<close>

definition directRefRules ::
  "string \<Rightarrow> catalog option \<Rightarrow> json list \<Rightarrow> string \<Rightarrow> string \<Rightarrow> js_error + ConnectionRule list" where
  "directRefRules schemaPath schemas reqs propName ref =
     (case refFilePart ref of
        None \<Rightarrow> Inr []
      | Some m \<Rightarrow>
          if \<not> endsWith m ''.json'' then Inr []
          else (let refPath0 = resolveRuleRef schemaPath m in
            if isPrimitiveSchemaPath refPath0 then Inr []
            else (let (refPath, refSchema) = findSchema schemas refPath0 in
              if truthy refSchema then
                bindE (isPrimitiveSchema refSchema) (\<lambda>prim.
                  if prim then Inr []
                  else bindE (isArraySchemaWithItems refSchema) (\<lambda>arr.
                    if arr then
                      Inr [\<lparr>propertyPath = propName, targetSchemaPath = refPath,
                            cardinality = Many, required = (JStr propName \<in> set reqs)\<rparr>]
                    else
                      Inr [\<lparr>propertyPath = propName, targetSchemaPath = refPath,
                            cardinality = One, required = (JStr propName \<in> set reqs)\<rparr>]))
              else
                Inr [\<lparr>propertyPath = propName, targetSchemaPath = refPath,
                      cardinality = One, required = (JStr propName \<in> set reqs)\<rparr>])))"

text \<open>
  The array branch, entered with the string \<open>propValue.items.$ref\<close>. The catalog is read
  at the resolved path only.
\<close>

definition arrayItemsRules ::
  "string \<Rightarrow> catalog option \<Rightarrow> json list \<Rightarrow> string \<Rightarrow> string \<Rightarrow> js_error + ConnectionRule list" where
  "arrayItemsRules schemaPath schemas reqs propName ref =
     (case refFilePart ref of
        None \<Rightarrow> Inr []
      | Some m \<Rightarrow>
          if \<not> endsWith m ''.json'' then Inr []
          else (let refPath = resolveRuleRef schemaPath m in
            if isPrimitiveSchemaPath refPath then Inr []
            else bindE (case schemas of
                          None \<Rightarrow> Inr False
                        | Some cat \<Rightarrow>
                            if truthy (map_of cat refPath) then isPrimitiveSchema (map_of cat refPath)
                            else Inr False) (\<lambda>prim.
              if prim then Inr []
              else Inr [\<lparr>propertyPath = propName, targetSchemaPath = refPath,
                         cardinality = Many, required = (JStr propName \<in> set reqs)\<rparr>])))"

text \<open>
  The loop over the patterns of \<open>patternProperties\<close>: \<open>continue\<close> goes on with the rest,
  \<open>break\<close> after the first rule.
\<close>

fun patternRules ::
  "string \<Rightarrow> catalog option \<Rightarrow> json list \<Rightarrow> string \<Rightarrow> (string \<times> json) list
     \<Rightarrow> js_error + ConnectionRule list" where
  "patternRules schemaPath schemas reqs propName [] = Inr []"
| "patternRules schemaPath schemas reqs propName ((pattern, patternDef) # rest) =
     bindE (member (Some patternDef) ''$ref'') (\<lambda>ref.
       case (if truthy ref then asString ref else None) of
         None \<Rightarrow> patternRules schemaPath schemas reqs propName rest
       | Some r \<Rightarrow>
           (case refFilePart r of
              None \<Rightarrow> patternRules schemaPath schemas reqs propName rest
            | Some m \<Rightarrow>
                if \<not> endsWith m ''.json'' then patternRules schemaPath schemas reqs propName rest
                else (let refPath = resolveRuleRef schemaPath m in
                  if isPrimitiveSchemaPath refPath
                  then patternRules schemaPath schemas reqs propName rest
                  else (let (actualRefPath, refSchema) = findSchema schemas refPath in
                    bindE (if truthy refSchema then isPrimitiveSchema refSchema else Inr False)
                      (\<lambda>prim.
                        if prim then patternRules schemaPath schemas reqs propName rest
                        else Inr [\<lparr>propertyPath = propName, targetSchemaPath = actualRefPath,
                                   cardinality = Many,
                                   required = (JStr propName \<in> set reqs)\<rparr>])))))"

text \<open>
  \<open>processProperty\<close>, returning the rules it pushes. After the array branch the source
  falls through to the test of the pattern branch, which fails there because \<open>type\<close> is
  \<open>'array'\<close>.
\<close>

definition processProperty ::
  "string \<Rightarrow> catalog option \<Rightarrow> json list \<Rightarrow> string \<Rightarrow> json \<Rightarrow> js_error + ConnectionRule list" where
  "processProperty schemaPath schemas reqs propName propValue =
     (if \<not> truthy (Some propValue) \<or> \<not> isObjectType (Some propValue) then Inr []
      else if truthy (getField propValue ''$ref'') \<and> asString (getField propValue ''$ref'') \<noteq> None then
        (case asString (getField propValue ''$ref'') of
           Some ref \<Rightarrow> directRefRules schemaPath schemas reqs propName ref
         | None \<Rightarrow> Inr [])
      else if asString (getField propValue ''type'') = Some ''array''
              \<and> truthy (getField propValue ''items'') then
        (case (if truthy (optMember (getField propValue ''items'') ''$ref'')
               then asString (optMember (getField propValue ''items'') ''$ref'') else None) of
           Some ref \<Rightarrow> arrayItemsRules schemaPath schemas reqs propName ref
         | None \<Rightarrow> Inr [])
      else if asString (getField propValue ''type'') = Some ''object''
              \<and> truthy (getField propValue ''patternProperties'') then
        (case getField propValue ''patternProperties'' of
           Some pp \<Rightarrow> patternRules schemaPath schemas reqs propName (ownEntries pp)
         | None \<Rightarrow> Inr [])
      else Inr [])"

text \<open>
  The helper \<open>getSchemaProperties\<close> inside \<open>getSchemaConnectionRules\<close>: the schema's own
  properties, then those of each \<open>allOf\<close> entry, merged by object spread.
\<close>

definition mergeAllOf :: "json \<Rightarrow> (string \<times> json) list \<Rightarrow> js_error + (string \<times> json) list" where
  "mergeAllOf subSchema properties =
     bindE (member (Some subSchema) ''properties'') (\<lambda>p.
       if truthy p \<and> isObjectType p
       then (case p of Some pv \<Rightarrow> Inr (spread properties (ownEntries pv)) | None \<Rightarrow> Inr properties)
       else Inr properties)"

fun foldE :: "('a \<Rightarrow> 'b \<Rightarrow> js_error + 'b) \<Rightarrow> 'a list \<Rightarrow> 'b \<Rightarrow> js_error + 'b" where
  "foldE f [] acc = Inr acc"
| "foldE f (x # xs) acc = bindE (f x acc) (foldE f xs)"

definition getSchemaProperties :: "json \<Rightarrow> js_error + (string \<times> json) list" where
  "getSchemaProperties schemaObj =
     bindE (member (Some schemaObj) ''properties'') (\<lambda>p.
       let properties =
             (if truthy p \<and> isObjectType p
              then (case p of Some pv \<Rightarrow> spread [] (ownEntries pv) | None \<Rightarrow> [])
              else [])
       in if isArray (getField schemaObj ''allOf'')
          then foldE mergeAllOf (elements (getField schemaObj ''allOf'')) properties
          else Inr properties)"

definition getSchemaConnectionRules ::
  "json \<Rightarrow> string \<Rightarrow> catalog option \<Rightarrow> js_error + ConnectionRule list" where
  "getSchemaConnectionRules schema schemaPath schemas =
     bindE (member (Some schema) ''required'') (\<lambda>r.
       bindE (requiredFields r) (\<lambda>reqs.
         bindE (getSchemaProperties schema) (\<lambda>properties.
           concatE (\<lambda>(propName, propValue).
                      processProperty schemaPath schemas reqs propName propValue)
                   properties)))"

text \<open>
  What the extractor has checked about a rule it emits for the property \<open>name\<close>: the
  catalog entry under the target is not primitive by content, and the target is a path
  that passed the heuristic or the catalog key that suffix matching substituted for one.
\<close>

definition ruleOk :: "catalog \<Rightarrow> string \<Rightarrow> ConnectionRule \<Rightarrow> bool" where
  "ruleOk cat name r \<longleftrightarrow> propertyPath r = name
     \<and> isPrimitiveSchema (map_of cat (targetSchemaPath r)) = Inr False
     \<and> (\<exists>p. \<not> isPrimitiveSchemaPath p
            \<and> (targetSchemaPath r = p
                \<or> (targetSchemaPath r \<in> set (map fst cat) \<and> targetSchemaPath r \<noteq> []
                    \<and> (endsWith (targetSchemaPath r) p \<or> endsWith p (targetSchemaPath r))
                    \<and> \<not> truthy (map_of cat p))))"

section \<open>Instance naming (\<open>builderTypes.ts\<close>)\<close>

text \<open>
  \<open>s.replace(pattern, replacement)\<close> with a string pattern: the first occurrence only.
\<close>

fun replaceFirst :: "string \<Rightarrow> string \<Rightarrow> string \<Rightarrow> string" where
  "replaceFirst [] pat rep = (if pat = [] then rep else [])"
| "replaceFirst (c # cs) pat rep =
     (if startsWith (c # cs) pat then rep @ drop (length pat) (c # cs)
      else c # replaceFirst cs pat rep)"

text \<open>
  A count is a JavaScript number, a double. The counts of the model are the doubles that
  hold an integer from \<open>0\<close> to \<open>2^53 = 9007199254740992\<close>: the counts that
  \<open>generateInstanceId\<close> reaches from such a count, and that the restore from a saved graph
  sets for the identifiers it saved. On them \<open>+ 1\<close> is exact below \<open>2^53\<close>, and at \<open>2^53\<close> the
  sum \<open>2^53 + 1\<close> is rounded to the nearest double, which is \<open>2^53\<close> again. The template
  literal prints such a count as its decimal digits.
\<close>

typedef count = "{n :: int. 0 \<le> n \<and> n \<le> 9007199254740992}"
  by auto

setup_lifting type_definition_count

text \<open>
  The integer a count holds, the counts \<open>0\<close> and \<open>2^53\<close>, and \<open>count + 1\<close> as the double
  addition computes it.
\<close>

lift_definition countValue :: "count \<Rightarrow> nat" is "\<lambda>n. nat n" .

lift_definition zeroCount :: count is 0
  by simp

lift_definition largestCount :: count is 9007199254740992
  by simp

lift_definition addOne :: "count \<Rightarrow> count" is
  "\<lambda>n. if n < 9007199254740992 then n + 1 else n"
  by auto

text \<open>The module-level \<open>instanceCounters\<close> map is passed in and returned.\<close>

type_synonym counters = "string \<rightharpoonup> count"

definition baseNameOf :: "string \<Rightarrow> string" where
  "baseNameOf schemaPath =
     (let popped = last (split_on CHR ''/'' schemaPath);
          fileName = (if popped \<noteq> [] then popped else schemaPath)
      in replaceFirst (replaceFirst fileName ''.schema.json'' []) ''.json'' [])"

definition generateInstanceId :: "counters \<Rightarrow> string \<Rightarrow> string \<times> counters" where
  "generateInstanceId instanceCounters schemaPath =
     (let baseName = baseNameOf schemaPath;
          currentCount = (case instanceCounters baseName of Some n \<Rightarrow> n | None \<Rightarrow> zeroCount);
          newCount = addOne currentCount
      in (baseName @ ''-'' @ decimal (countValue newCount),
          instanceCounters(baseName \<mapsto> newCount)))"

definition resetInstanceCounters :: "counters \<Rightarrow> counters" where
  "resetInstanceCounters instanceCounters = Map.empty"

definition setInstanceCounter :: "counters \<Rightarrow> string \<Rightarrow> count \<Rightarrow> counters" where
  "setInstanceCounter instanceCounters baseName v = instanceCounters(baseName \<mapsto> v)"

text \<open>
  A sequence of \<open>generateInstanceId\<close> calls with nothing else touching the counters: the
  identifiers returned, in call order.
\<close>

fun generateAll :: "counters \<Rightarrow> string list \<Rightarrow> string list" where
  "generateAll instanceCounters [] = []"
| "generateAll instanceCounters (schemaPath # rest) =
     (case generateInstanceId instanceCounters schemaPath of
        (newId, counters') \<Rightarrow> newId # generateAll counters' rest)"

text \<open>The value of a decimal digit, to read a printed count back.\<close>

definition digitVal :: "char \<Rightarrow> nat" where
  "digitVal c = (case map_of (zip ''0123456789'' [0..<10]) c of Some d \<Rightarrow> d | None \<Rightarrow> 0)"

text \<open>
  The count a counter map holds for a stem, and the number of calls of a sequence that
  use a stem.
\<close>

definition countOf :: "counters \<Rightarrow> string \<Rightarrow> nat" where
  "countOf instanceCounters baseName =
     countValue (case instanceCounters baseName of Some n \<Rightarrow> n | None \<Rightarrow> zeroCount)"

definition callsFor :: "string \<Rightarrow> string list \<Rightarrow> nat" where
  "callsFor baseName schemaPaths = length (filter (\<lambda>p. baseNameOf p = baseName) schemaPaths)"

section \<open>Persistence (\<open>builderStorage.ts\<close>)\<close>

text \<open>
  The state of \<open>localStorage\<close> that \<open>loadBuilderState\<close> touches is the item under
  \<open>STORAGE_KEY\<close>: \<open>None\<close> when \<open>getItem\<close> returns \<open>null\<close>. \<open>JSON.parse\<close> belongs to the
  platform and is a parameter; \<open>None\<close> is its \<open>SyntaxError\<close>. The function returns its
  result together with the item it leaves behind; every exception inside its \<open>try\<close>
  ends in the \<open>catch\<close> branch, which clears the item and returns \<open>null\<close>.
\<close>

definition clearBuilderState :: "string option \<Rightarrow> string option" where
  "clearBuilderState item = None"

text \<open>
  The test of the node loop:
  \<open>!node.id || !node.position || !node.data?.schemaPath || !node.data?.instanceId\<close>.
\<close>

definition invalidNode :: "json \<Rightarrow> js_error + bool" where
  "invalidNode node =
     bindE (member (Some node) ''id'') (\<lambda>nodeId.
       Inr (\<not> truthy nodeId
            \<or> \<not> truthy (getField node ''position'')
            \<or> \<not> truthy (optMember (getField node ''data'') ''schemaPath'')
            \<or> \<not> truthy (optMember (getField node ''data'') ''instanceId'')))"

text \<open>The test of the edge loop: \<open>!edge.id || !edge.source || !edge.target\<close>.\<close>

definition invalidEdge :: "json \<Rightarrow> js_error + bool" where
  "invalidEdge edge =
     bindE (member (Some edge) ''id'') (\<lambda>edgeId.
       Inr (\<not> truthy edgeId
            \<or> \<not> truthy (getField edge ''source'')
            \<or> \<not> truthy (getField edge ''target'')))"

definition loadBuilderState ::
  "(string \<Rightarrow> json option) \<Rightarrow> string option \<Rightarrow> json option \<times> string option" where
  "loadBuilderState parse item =
     (case item of
        None \<Rightarrow> (None, item)
      | Some stored \<Rightarrow>
          if stored = [] then (None, item)
          else (case parse stored of
                  None \<Rightarrow> (None, clearBuilderState item)
                | Some state \<Rightarrow>
                    if \<not> truthy (Some state)
                       \<or> \<not> isArray (optMember (Some state) ''nodes'')
                       \<or> \<not> isArray (optMember (Some state) ''edges'')
                    then (None, clearBuilderState item)
                    else (case someE invalidNode (elements (optMember (Some state) ''nodes'')) of
                            Inl e \<Rightarrow> (None, clearBuilderState item)
                          | Inr True \<Rightarrow> (None, clearBuilderState item)
                          | Inr False \<Rightarrow>
                              (case someE invalidEdge (elements (optMember (Some state) ''edges'')) of
                                 Inl e \<Rightarrow> (None, clearBuilderState item)
                               | Inr True \<Rightarrow> (None, clearBuilderState item)
                               | Inr False \<Rightarrow> (Some state, item)))))"

section \<open>Connection validator (\<open>connectionValidator.ts\<close>)\<close>

text \<open>
  The validator is modelled in the version that resolves targets through array and union
  schemas and passes the catalog to the rule extractor.
\<close>

definition getConnectionRulesForSchema ::
  "json \<Rightarrow> string \<Rightarrow> catalog option \<Rightarrow> js_error + ConnectionRule list" where
  "getConnectionRulesForSchema schema schemaPath schemas =
     getSchemaConnectionRules schema schemaPath schemas"

text \<open>\<open>[...new Set(results)]\<close>: the first occurrence of each element, in order.\<close>

definition uniq :: "string list \<Rightarrow> string list" where
  "uniq xs = rev (remdups (rev xs))"

text \<open>
  The reads of \<open>resolveTargetSchemaPath\<close> that may yield a reference to follow, in the
  order of the source: \<open>schema.items?.$ref\<close>, then \<open>sub.items?.$ref\<close> for the entries of
  \<open>allOf\<close>, then \<open>sub.$ref\<close> for the entries of \<open>anyOf\<close> and of \<open>oneOf\<close>. A read on a
  \<open>null\<close> entry is a \<open>TypeError\<close>, raised when the loop reaches that entry.
\<close>

definition refReads :: "json option \<Rightarrow> (js_error + json option) list" where
  "refReads schema =
     [Inr (optMember (optMember schema ''items'') ''$ref'')]
     @ (if isArray (optMember schema ''allOf'')
        then map (\<lambda>sub. bindE (member (Some sub) ''items'') (\<lambda>items. Inr (optMember items ''$ref'')))
               (elements (optMember schema ''allOf''))
        else [])
     @ (if isArray (optMember schema ''anyOf'')
        then map (\<lambda>sub. member (Some sub) ''$ref'') (elements (optMember schema ''anyOf''))
        else [])
     @ (if isArray (optMember schema ''oneOf'')
        then map (\<lambda>sub. member (Some sub) ''$ref'') (elements (optMember schema ''oneOf''))
        else [])"

text \<open>
  What one read contributes to \<open>results\<close>: nothing when the value is falsy; otherwise the
  resolved path and the recursive result for it. \<open>resolveRefPath\<close> calls \<open>ref.split\<close>,
  which only a string has.
\<close>

definition followRead ::
  "(string \<Rightarrow> js_error + string list) \<Rightarrow> string \<Rightarrow> js_error + json option
     \<Rightarrow> js_error + string list" where
  "followRead rec actualPath read =
     bindE read (\<lambda>refValue.
       if \<not> truthy refValue then Inr []
       else (case asString refValue of
               None \<Rightarrow> Inl TypeError
             | Some ref \<Rightarrow>
                 (let target = resolveRefPath ref actualPath
                  in bindE (rec target) (\<lambda>nested. Inr (target # nested)))))"

text \<open>
  The body of \<open>resolveTargetSchemaPath\<close>, with the recursive call as a parameter. The
  lookup with its suffix fallback is the one of \<open>findSchema\<close>.
\<close>

definition resolveTargetsBody ::
  "(string \<Rightarrow> js_error + string list) \<Rightarrow> catalog \<Rightarrow> string \<Rightarrow> js_error + string list" where
  "resolveTargetsBody rec schemas schemaPath =
     (case findSchema (Some schemas) schemaPath of
        (actualPath, schema) \<Rightarrow>
          if \<not> truthy schema then Inr [schemaPath]
          else bindE (concatE (followRead rec actualPath) (refReads schema))
                 (\<lambda>more. Inr (uniq (actualPath # more))))"

text \<open>
  The recursion has no guard of its own. The first argument is the depth of call stack
  that is left; with none left the call raises \<open>RangeError\<close>.
\<close>

primrec resolveTargetSchemaPath :: "nat \<Rightarrow> catalog \<Rightarrow> string \<Rightarrow> js_error + string list" where
  "resolveTargetSchemaPath 0 schemas schemaPath = Inl RangeError"
| "resolveTargetSchemaPath (Suc depth) schemas schemaPath =
     resolveTargetsBody (resolveTargetSchemaPath depth schemas) schemas schemaPath"

record DataInstance =
  instId :: string
  schemaPath :: string
  position :: "int \<times> int"
  data :: json

record DataConnection =
  connId :: string
  sourceId :: string
  targetId :: string
  connPropertyPath :: string

text \<open>The reasons of a rejection, one for each message of \<open>validateConnection\<close>.\<close>

datatype reason =
    SourceInstanceNotFound
  | TargetInstanceNotFound
  | SourceSchemaNotFound
  | PropertyHasNoRef
  | TargetSchemaMismatch
  | OneToOneOccupied
  | SelfConnection
  | DuplicateConnection

record ValidationResult =
  valid :: bool
  reason :: "reason option"

definition accepted :: ValidationResult where
  "accepted = \<lparr>valid = True, reason = None\<rparr>"

definition rejected :: "reason \<Rightarrow> ValidationResult" where
  "rejected why = \<lparr>valid = False, reason = Some why\<rparr>"

definition validateConnection ::
  "nat \<Rightarrow> string \<Rightarrow> string \<Rightarrow> string \<Rightarrow> DataConnection list \<Rightarrow> catalog
     \<Rightarrow> (string \<rightharpoonup> DataInstance) \<Rightarrow> js_error + ValidationResult" where
  "validateConnection depth sourceInstanceId targetInstanceId propPath existingConnections
       schemas instances =
     (case instances sourceInstanceId of
        None \<Rightarrow> Inr (rejected SourceInstanceNotFound)
      | Some sourceInstance \<Rightarrow>
     (case instances targetInstanceId of
        None \<Rightarrow> Inr (rejected TargetInstanceNotFound)
      | Some targetInstance \<Rightarrow>
     (case map_of schemas (schemaPath sourceInstance) of
        None \<Rightarrow> Inr (rejected SourceSchemaNotFound)
      | Some sourceSchema \<Rightarrow>
          if \<not> truthy (Some sourceSchema) then Inr (rejected SourceSchemaNotFound)
          else
            bindE (getConnectionRulesForSchema sourceSchema (schemaPath sourceInstance)
                     (Some schemas)) (\<lambda>rules.
              case find (\<lambda>r. propertyPath r = propPath) rules of
                None \<Rightarrow> Inr (rejected PropertyHasNoRef)
              | Some rule \<Rightarrow>
                  bindE (resolveTargetSchemaPath depth schemas (targetSchemaPath rule))
                    (\<lambda>resolvedTargets.
                      if schemaPath targetInstance \<notin> set resolvedTargets
                      then Inr (rejected TargetSchemaMismatch)
                      else if cardinality rule = One
                              \<and> find (\<lambda>conn. sourceId conn = sourceInstanceId
                                            \<and> connPropertyPath conn = propPath)
                                    existingConnections \<noteq> None
                      then Inr (rejected OneToOneOccupied)
                      else if sourceInstanceId = targetInstanceId
                      then Inr (rejected SelfConnection)
                      else if find (\<lambda>conn. sourceId conn = sourceInstanceId
                                          \<and> targetId conn = targetInstanceId
                                          \<and> connPropertyPath conn = propPath)
                                existingConnections \<noteq> None
                      then Inr (rejected DuplicateConnection)
                      else Inr accepted)))))"

text \<open>
  A proposed connection, as the \<open>onConnect\<close> handler of the builder treats it: it is
  validated against the connections that exist, and appended only when the validator
  returns \<open>valid: true\<close>; a rejection or an exception leaves the list as it was.
\<close>

definition proposeConnection ::
  "nat \<Rightarrow> catalog \<Rightarrow> (string \<rightharpoonup> DataInstance) \<Rightarrow> DataConnection list
     \<Rightarrow> string \<times> string \<times> string \<Rightarrow> DataConnection list" where
  "proposeConnection depth schemas instances connections proposal =
     (case proposal of (source, target, sourceHandle) \<Rightarrow>
        if validateConnection depth source target sourceHandle connections schemas instances
             = Inr accepted
        then connections @ [\<lparr>connId = source @ ''-'' @ sourceHandle @ ''-'' @ target,
                             sourceId = source, targetId = target,
                             connPropertyPath = sourceHandle\<rparr>]
        else connections)"


text \<open>
  The invariant of the connection list: a property with a rule of cardinality \<open>one\<close>
  carries at most one connection per source instance, and the triples of source, target
  and property are pairwise different.
\<close>

definition connTriple :: "DataConnection \<Rightarrow> string \<times> string \<times> string" where
  "connTriple c = (sourceId c, targetId c, connPropertyPath c)"

definition cardinalityInvariant ::
  "catalog \<Rightarrow> (string \<rightharpoonup> DataInstance) \<Rightarrow> DataConnection list \<Rightarrow> bool" where
  "cardinalityInvariant schemas instances conns \<longleftrightarrow>
     (\<forall>i p inst schema rules rule.
         instances i = Some inst \<and> map_of schemas (schemaPath inst) = Some schema
         \<and> getConnectionRulesForSchema schema (schemaPath inst) (Some schemas) = Inr rules
         \<and> find (\<lambda>r. propertyPath r = p) rules = Some rule \<and> cardinality rule = One
         \<longrightarrow> length (filter (\<lambda>c. sourceId c = i \<and> connPropertyPath c = p) conns) \<le> 1)
     \<and> distinct (map connTriple conns)"

section \<open>Export (\<open>dataModelExport.ts\<close>)\<close>

text \<open>
  A node of the canvas with the data the builder puts on it (\<open>BuilderNodeData\<close>:
  \<open>schemaPath\<close>, \<open>instanceId\<close>, \<open>schemaTitle\<close>, optional \<open>values\<close>); \<open>data\<close> itself may be
  missing, which \<open>node.data?.\<close> allows for. An edge carries its end points and the
  property it leaves from as \<open>sourceHandle\<close>.
\<close>

record NodeData =
  dataInstanceId :: string
  dataSchemaPath :: string
  dataSchemaTitle :: json
  dataValues :: "(string \<times> json) list option"

record Node =
  nodeId :: string
  nodePosition :: "int \<times> int"
  nodeData :: "NodeData option"

record Edge =
  edgeId :: string
  edgeSource :: string
  edgeTarget :: string
  edgeSourceHandle :: "string option"

record ExportOptions =
  includeMetadata :: bool
  rootInstanceId :: "string option"

definition getDefaultValue :: "json \<Rightarrow> json" where
  "getDefaultValue propertyDef =
     (if \<not> truthy (Some propertyDef) then JNull
      else (case getField propertyDef ''default'' of
              Some d \<Rightarrow> d
            | None \<Rightarrow>
                if getField propertyDef ''type'' = Some (JStr ''array'') then JArr []
                else if getField propertyDef ''type'' = Some (JStr ''object'') then JObj []
                else JNull))"

definition findRootInstances :: "Node list \<Rightarrow> Edge list \<Rightarrow> string list" where
  "findRootInstances nodes edges =
     map nodeId (filter (\<lambda>node. nodeId node \<notin> set (map edgeTarget edges)) nodes)"

definition getInstanceConnections :: "string \<Rightarrow> Edge list \<Rightarrow> Edge list" where
  "getInstanceConnections node edges = filter (\<lambda>edge. edgeSource edge = node) edges"

text \<open>
  \<open>connectionsByProperty.get(propName) || []\<close>: the outgoing edges grouped under
  \<open>edge.sourceHandle || ''\<close>, in their order.
\<close>

definition connectionsFor :: "string \<Rightarrow> Edge list \<Rightarrow> Edge list" where
  "connectionsFor propName outgoing =
     filter (\<lambda>edge. (case edgeSourceHandle edge of Some h \<Rightarrow> h | None \<Rightarrow> []) = propName)
       outgoing"

text \<open>
  The recursive call is a parameter \<open>rec\<close>: it takes the target and the \<open>visited\<close> set and
  returns the built object (\<open>None\<close> is \<open>null\<close>) with the set as the call leaves it, since
  the callee adds to the set it is handed.

  The \<open>one\<close> branch hands the callee the caller's own set: what the callee adds stays.
\<close>

definition buildOne ::
  "(string \<Rightarrow> string set \<Rightarrow> js_error + json option \<times> string set) \<Rightarrow> Edge list \<Rightarrow> string set
     \<Rightarrow> js_error + json \<times> string set" where
  "buildOne rec connections visited =
     (case connections of
        [] \<Rightarrow> Inr (JNull, visited)
      | first # others \<Rightarrow>
          bindE (rec (edgeTarget first) visited) (\<lambda>(connectedObject, visited').
            Inr ((case connectedObject of Some obj \<Rightarrow> obj | None \<Rightarrow> JNull), visited')))"

text \<open>
  The \<open>many\<close> branch hands each callee \<open>new Set(visited)\<close>: what a callee adds is lost,
  and a \<open>null\<close> result is left out of the array.
\<close>

fun buildMany ::
  "(string \<Rightarrow> string set \<Rightarrow> js_error + json option \<times> string set) \<Rightarrow> string set \<Rightarrow> Edge list
     \<Rightarrow> js_error + json list" where
  "buildMany rec visited [] = Inr []"
| "buildMany rec visited (connection # others) =
     bindE (rec (edgeTarget connection) visited) (\<lambda>(connectedObject, copy).
       bindE (buildMany rec visited others) (\<lambda>items.
         Inr (case connectedObject of Some obj \<Rightarrow> obj # items | None \<Rightarrow> items)))"

text \<open>One round of the loop over \<open>schema.properties\<close>, on the pair of \<open>result\<close> and \<open>visited\<close>.\<close>

definition buildProperty ::
  "(string \<Rightarrow> string set \<Rightarrow> js_error + json option \<times> string set) \<Rightarrow> ConnectionRule list
     \<Rightarrow> Edge list \<Rightarrow> (string \<times> json) list \<Rightarrow> string \<times> json
     \<Rightarrow> (string \<times> json) list \<times> string set
     \<Rightarrow> js_error + (string \<times> json) list \<times> string set" where
  "buildProperty rec connectionRules outgoing nodeValues prop state =
     (case prop of (propName, propDef) \<Rightarrow>
      case state of (result, visited) \<Rightarrow>
        (case find (\<lambda>r. propertyPath r = propName) connectionRules of
           Some rule \<Rightarrow>
             if cardinality rule = One then
               bindE (buildOne rec (connectionsFor propName outgoing) visited)
                 (\<lambda>(v, visited'). Inr (setProp propName v result, visited'))
             else
               bindE (buildMany rec visited (connectionsFor propName outgoing))
                 (\<lambda>items. Inr (setProp propName (JArr items) result, visited))
         | None \<Rightarrow>
             Inr (setProp propName
                    (case map_of nodeValues propName of
                       Some userValue \<Rightarrow> userValue
                     | None \<Rightarrow> getDefaultValue propDef)
                    result,
                  visited)))"

definition buildBody ::
  "(string \<Rightarrow> string set \<Rightarrow> js_error + json option \<times> string set) \<Rightarrow> string \<Rightarrow> Node list
     \<Rightarrow> Edge list \<Rightarrow> catalog \<Rightarrow> string set \<Rightarrow> ExportOptions option
     \<Rightarrow> js_error + json option \<times> string set" where
  "buildBody rec node nodes edges schemas visited options =
     (if node \<in> visited then Inr (None, visited)
      else (let visited1 = insert node visited in
        case find (\<lambda>n. nodeId n = node) nodes of
          None \<Rightarrow> Inr (None, visited1)
        | Some found \<Rightarrow>
        (case nodeData found of
           None \<Rightarrow> Inr (None, visited1)
         | Some nd \<Rightarrow>
             if dataSchemaPath nd = [] then Inr (None, visited1)
             else if \<not> truthy (map_of schemas (dataSchemaPath nd)) then Inr (None, visited1)
             else (case map_of schemas (dataSchemaPath nd) of
                None \<Rightarrow> Inr (None, visited1)
              | Some schema \<Rightarrow>
                 (let nodeValues = (case dataValues nd of Some vs \<Rightarrow> vs | None \<Rightarrow> []);
                      result0 =
                        (if (case options of Some opts \<Rightarrow> includeMetadata opts | None \<Rightarrow> False)
                         then [(''_schemaPath'', JStr (dataSchemaPath nd)),
                               (''_instanceId'', JStr node)]
                         else [])
                  in bindE (getSchemaConnectionRules schema (dataSchemaPath nd) None)
                       (\<lambda>connectionRules.
                          if truthy (getField schema ''properties'')
                             \<and> isObjectType (getField schema ''properties'')
                          then
                            (case getField schema ''properties'' of
                               Some props \<Rightarrow>
                                 bindE (foldE (buildProperty rec connectionRules
                                                 (getInstanceConnections node edges) nodeValues)
                                          (ownEntries props) (result0, visited1))
                                   (\<lambda>(result, visited'). Inr (Some (JObj result), visited'))
                             | None \<Rightarrow> Inr (Some (JObj result0), visited1))
                          else Inr (Some (JObj result0), visited1)))))))"

text \<open>
  \<open>buildObjectFromInstance\<close>. The first argument is the depth of call stack that is left;
  with none left the call raises \<open>RangeError\<close>.
\<close>

primrec buildObjectFromInstance ::
  "nat \<Rightarrow> string \<Rightarrow> Node list \<Rightarrow> Edge list \<Rightarrow> catalog \<Rightarrow> string set \<Rightarrow> ExportOptions option
     \<Rightarrow> js_error + json option \<times> string set" where
  "buildObjectFromInstance 0 node nodes edges schemas visited options = Inl RangeError"
| "buildObjectFromInstance (Suc depth) node nodes edges schemas visited options =
     buildBody (\<lambda>target seen. buildObjectFromInstance depth target nodes edges schemas seen options)
       node nodes edges schemas visited options"

text \<open>The loop of \<open>exportToJson\<close> over the roots, each with a fresh \<open>visited\<close> set.\<close>

fun exportRoots ::
  "nat \<Rightarrow> Node list \<Rightarrow> Edge list \<Rightarrow> catalog \<Rightarrow> ExportOptions option \<Rightarrow> string list
     \<Rightarrow> js_error + json list" where
  "exportRoots depth nodes edges schemas options [] = Inr []"
| "exportRoots depth nodes edges schemas options (rootId # others) =
     bindE (buildObjectFromInstance depth rootId nodes edges schemas {} options)
       (\<lambda>(result, seen).
          bindE (exportRoots depth nodes edges schemas options others) (\<lambda>results.
            Inr (case result of Some obj \<Rightarrow> obj # results | None \<Rightarrow> results)))"

definition exportToJson ::
  "nat \<Rightarrow> Node list \<Rightarrow> Edge list \<Rightarrow> catalog \<Rightarrow> ExportOptions option \<Rightarrow> js_error + json" where
  "exportToJson depth nodes edges schemas options =
     (if nodes = [] then Inr (JArr [])
      else (case (case options of Some opts \<Rightarrow> rootInstanceId opts | None \<Rightarrow> None) of
              Some wanted \<Rightarrow>
                if wanted \<noteq> [] then
                  bindE (buildObjectFromInstance depth wanted nodes edges schemas {} options)
                    (\<lambda>(result, seen).
                       Inr (case result of Some obj \<Rightarrow> obj | None \<Rightarrow> JObj []))
                else
                  (let rootIds = findRootInstances nodes edges;
                       idsToExport = (if rootIds \<noteq> [] then rootIds else map nodeId nodes)
                   in bindE (exportRoots depth nodes edges schemas options idsToExport)
                        (\<lambda>results. Inr (case results of [single] \<Rightarrow> single | _ \<Rightarrow> JArr results)))
            | None \<Rightarrow>
                (let rootIds = findRootInstances nodes edges;
                     idsToExport = (if rootIds \<noteq> [] then rootIds else map nodeId nodes)
                 in bindE (exportRoots depth nodes edges schemas options idsToExport)
                      (\<lambda>results. Inr (case results of [single] \<Rightarrow> single | _ \<Rightarrow> JArr results)))))"

text \<open>
  A computation that does not exhaust the call stack: it returns, or it throws something
  other than \<open>RangeError\<close>.
\<close>

definition noOverflow :: "js_error + 'a \<Rightarrow> bool" where
  "noOverflow m \<longleftrightarrow> m \<noteq> Inl RangeError"

text \<open>
  What the termination argument asks of the recursive call, on every set that contains
  \<open>base\<close>: the stack suffices and the set only grows. \<open>growing\<close> says the same of one
  computation.
\<close>

definition wellBehaved ::
  "string set \<Rightarrow> (string \<Rightarrow> string set \<Rightarrow> js_error + json option \<times> string set) \<Rightarrow> bool" where
  "wellBehaved base rec \<longleftrightarrow>
     (\<forall>t v. base \<subseteq> v \<longrightarrow>
        noOverflow (rec t v) \<and> (\<forall>r v'. rec t v = Inr (r, v') \<longrightarrow> v \<subseteq> v'))"

definition growing :: "string set \<Rightarrow> js_error + 'a \<times> string set \<Rightarrow> bool" where
  "growing v m \<longleftrightarrow> noOverflow m \<and> (\<forall>r v'. m = Inr (r, v') \<longrightarrow> v \<subseteq> v')"

section \<open>Import (\<open>dataModelExport.ts\<close>)\<close>

text \<open>
  \<open>Object.keys(data)\<close>: a \<open>TypeError\<close> on \<open>null\<close>.
\<close>

definition objectKeys :: "json \<Rightarrow> js_error + string list" where
  "objectKeys v = (case v of JNull \<Rightarrow> Inl TypeError | _ \<Rightarrow> Inr (map fst (ownEntries v)))"

text \<open>
  The property key that a value used as a key is converted to: a string is itself, the
  other primitives print, an array joins its elements with commas (\<open>null\<close> as the empty
  string), an object is \<open>[object Object]\<close>.
\<close>

fun toPropertyKey :: "json \<Rightarrow> string" where
  "toPropertyKey (JStr s) = s"
| "toPropertyKey JNull = ''null''"
| "toPropertyKey (JBool b) = (if b then ''true'' else ''false'')"
| "toPropertyKey (JNum n) = (if n < 0 then ''-'' @ decimal (nat (- n)) else decimal (nat n))"
| "toPropertyKey (JArr xs) =
     join '','' (map (\<lambda>x. case x of JNull \<Rightarrow> [] | _ \<Rightarrow> toPropertyKey x) xs)"
| "toPropertyKey (JObj es) = ''[object Object]''"

text \<open>
  The names that every object inherits from \<open>Object.prototype\<close>, and those that every
  array inherits from \<open>Array.prototype\<close> (ECMAScript 2023) on top of them.
\<close>

definition objectPrototypeKeys :: "string list" where
  "objectPrototypeKeys =
     [''constructor'', ''hasOwnProperty'', ''isPrototypeOf'', ''propertyIsEnumerable'',
      ''toLocaleString'', ''toString'', ''valueOf'', ''__proto__'', ''__defineGetter__'',
      ''__defineSetter__'', ''__lookupGetter__'', ''__lookupSetter__'']"

definition arrayPrototypeKeys :: "string list" where
  "arrayPrototypeKeys =
     [''at'', ''concat'', ''copyWithin'', ''entries'', ''every'', ''fill'', ''filter'',
      ''find'', ''findIndex'', ''findLast'', ''findLastIndex'', ''flat'', ''flatMap'',
      ''forEach'', ''includes'', ''indexOf'', ''join'', ''keys'', ''lastIndexOf'', ''map'',
      ''pop'', ''push'', ''reduce'', ''reduceRight'', ''reverse'', ''shift'', ''slice'',
      ''some'', ''sort'', ''splice'', ''toReversed'', ''toSorted'', ''toSpliced'',
      ''unshift'', ''values'', ''with'']"

text \<open>
  \<open>prop in data\<close>: the \<open>in\<close> operator looks at the own properties of the data (the keys of
  an object; the indices and \<open>length\<close> of an array) and then along the prototype chain,
  so an inherited name is found too. It raises a \<open>TypeError\<close> when \<open>data\<close> is not an
  object.
\<close>

definition hasProperty :: "json \<Rightarrow> json \<Rightarrow> js_error + bool" where
  "hasProperty doc prop =
     (case doc of
        JObj es \<Rightarrow>
          Inr (toPropertyKey prop \<in> set (map fst es)
               \<or> toPropertyKey prop \<in> set objectPrototypeKeys)
      | JArr xs \<Rightarrow>
          Inr (toPropertyKey prop \<in> set (map decimal [0..<length xs])
               \<or> toPropertyKey prop = ''length''
               \<or> toPropertyKey prop \<in> set arrayPrototypeKeys
               \<or> toPropertyKey prop \<in> set objectPrototypeKeys)
      | _ \<Rightarrow> Inl TypeError)"

text \<open>
  \<open>(schemaObj.required as string[]) || []\<close>, as \<open>every\<close> needs it: a truthy value that
  is not an array has no \<open>every\<close>.
\<close>

definition requiredProps :: "json option \<Rightarrow> js_error + json list" where
  "requiredProps r =
     (if \<not> truthy r then Inr []
      else (case r of Some (JArr xs) \<Rightarrow> Inr xs | _ \<Rightarrow> Inl TypeError))"

text \<open>
  A score is the quotient of two counts; \<open>None\<close> is \<open>NaN\<close>, the quotient \<open>0 / 0\<close>. The
  quotient of the model is exact, and so are the comparisons of the code on quotients of
  counts below \<open>2^26\<close>. A comparison with \<open>NaN\<close> is false.
\<close>

type_synonym score = "rat option"

definition divideCounts :: "nat \<Rightarrow> nat \<Rightarrow> score" where
  "divideCounts m n = (if n = 0 then None else Some (of_nat m / of_nat n))"

definition scoreGreater :: "score \<Rightarrow> score \<Rightarrow> bool" where
  "scoreGreater a b = (case (a, b) of (Some x, Some y) \<Rightarrow> x > y | _ \<Rightarrow> False)"

definition scoreAtLeastHalf :: "score \<Rightarrow> bool" where
  "scoreAtLeastHalf a = (case a of Some x \<Rightarrow> x \<ge> 1 / 2 | None \<Rightarrow> False)"

text \<open>
  The test that lets a schema take part, \<open>None\<close> for \<open>continue\<close>: \<open>properties\<close> truthy,
  \<open>type\<close> equal to \<open>'object'\<close>, and every required property in the data. Then
  \<open>Object.keys(schemaObj.properties)\<close> and the score.
\<close>

definition schemaQualifies :: "json \<Rightarrow> json \<Rightarrow> js_error + bool" where
  "schemaQualifies doc schemaObj =
     bindE (member (Some schemaObj) ''properties'') (\<lambda>props.
       if \<not> truthy props \<or> getField schemaObj ''type'' \<noteq> Some (JStr ''object'') then Inr False
       else bindE (requiredProps (getField schemaObj ''required'')) (\<lambda>reqs.
              everyE (hasProperty doc) reqs))"

definition schemaPropsOf :: "json \<Rightarrow> string list" where
  "schemaPropsOf schemaObj =
     (case getField schemaObj ''properties'' of
        Some props \<Rightarrow> map fst (ownEntries props) | None \<Rightarrow> [])"

definition schemaScore :: "string list \<Rightarrow> json \<Rightarrow> score" where
  "schemaScore dataKeys schemaObj =
     (let schemaProps = schemaPropsOf schemaObj;
          matchingProps = filter (\<lambda>key. key \<in> set schemaProps) dataKeys
      in divideCounts (length matchingProps) (max (length dataKeys) (length schemaProps)))"

text \<open>The loop over \<open>Object.entries(schemas)\<close>, on \<open>bestMatch\<close>.\<close>

fun matchLoop ::
  "json \<Rightarrow> string list \<Rightarrow> catalog \<Rightarrow> (string \<times> score) option
     \<Rightarrow> js_error + (string \<times> score) option" where
  "matchLoop doc dataKeys [] bestMatch = Inr bestMatch"
| "matchLoop doc dataKeys ((candidate, schema) # others) bestMatch =
     bindE (schemaQualifies doc schema) (\<lambda>ok.
       if \<not> ok then matchLoop doc dataKeys others bestMatch
       else
         (case bestMatch of
            None \<Rightarrow>
              matchLoop doc dataKeys others (Some (candidate, schemaScore dataKeys schema))
          | Some (bestPath, bestScore) \<Rightarrow>
              if scoreGreater (schemaScore dataKeys schema) bestScore
              then matchLoop doc dataKeys others (Some (candidate, schemaScore dataKeys schema))
              else matchLoop doc dataKeys others bestMatch))"

text \<open>\<open>dataKeys\<close>: the keys of the data that do not start with an underscore.\<close>

definition dataKeysOf :: "json \<Rightarrow> js_error + string list" where
  "dataKeysOf doc =
     bindE (objectKeys doc) (\<lambda>keys. Inr (filter (\<lambda>k. \<not> startsWith k ''_'') keys))"

definition findMatchingSchema :: "json \<Rightarrow> catalog \<Rightarrow> js_error + (string \<times> score) option" where
  "findMatchingSchema doc schemas =
     bindE (dataKeysOf doc) (\<lambda>dataKeys.
       bindE (matchLoop doc dataKeys schemas None)
         (\<lambda>bestMatch.
            case bestMatch of
              Some (candidate, s) \<Rightarrow> if scoreAtLeastHalf s then Inr bestMatch else Inr None
            | None \<Rightarrow> Inr None))"

text \<open>
  The state that \<open>importFromJson\<close> builds up: the nodes, the edges, the errors and the
  instance counters of the naming service. An error is recorded as the object for which
  no schema was found; its message is a fixed text around the start of the object's JSON
  text. The map from data objects to instance identifiers is keyed by object identity;
  the data here is a JSON tree, in which no object occurs twice, so a lookup in that map
  never hits and the map is left out. The presentation fields of an edge are left out too.
\<close>

record ImportState =
  impNodes :: "Node list"
  impEdges :: "Edge list"
  impErrors :: "json list"
  impCounters :: counters

text \<open>\<open>typeof v === 'object'\<close> together with the tests that go with it at each call.\<close>

fun isPlainObject :: "json \<Rightarrow> bool" where
  "isPlainObject (JObj es) = True"
| "isPlainObject _ = False"

fun isNonNullObject :: "json \<Rightarrow> bool" where
  "isNonNullObject (JObj es) = True"
| "isNonNullObject (JArr xs) = True"
| "isNonNullObject _ = False"

text \<open>\<open>dataObj[key]\<close> on own properties: of an object, or an element of an array.\<close>

fun getProp :: "json \<Rightarrow> string \<Rightarrow> json option" where
  "getProp (JObj es) k = map_of es k"
| "getProp (JArr xs) k = map_of (zip (map decimal [0..<length xs]) xs) k"
| "getProp _ k = None"

text \<open>
  The loop over the items of a \<open>many\<close> value: the item at index \<open>i\<close> is placed at row
  \<open>childIndex + i\<close>.
\<close>

fun importItems ::
  "(json \<Rightarrow> int \<times> int \<Rightarrow> (string \<times> string) option \<Rightarrow> ImportState
      \<Rightarrow> js_error + string option \<times> ImportState)
   \<Rightarrow> int \<times> int \<Rightarrow> int \<Rightarrow> string \<Rightarrow> string \<Rightarrow> int \<Rightarrow> json list \<Rightarrow> ImportState
   \<Rightarrow> js_error + ImportState" where
  "importItems rec pos childX instanceId propPath row [] st = Inr st"
| "importItems rec pos childX instanceId propPath row (item # others) st =
     (if isNonNullObject item then
        bindE (rec item (childX, snd pos + row * (200 + 80)) (Some (instanceId, propPath)) st)
          (\<lambda>(created, st'). importItems rec pos childX instanceId propPath (row + 1) others st')
      else importItems rec pos childX instanceId propPath (row + 1) others st)"

text \<open>The loop over the connection rules, on \<open>childIndex\<close> and the state.\<close>

fun importChildren ::
  "(json \<Rightarrow> int \<times> int \<Rightarrow> (string \<times> string) option \<Rightarrow> ImportState
      \<Rightarrow> js_error + string option \<times> ImportState)
   \<Rightarrow> json \<Rightarrow> int \<times> int \<Rightarrow> string \<Rightarrow> ConnectionRule list \<Rightarrow> int \<Rightarrow> ImportState
   \<Rightarrow> js_error + ImportState" where
  "importChildren rec dataObj pos instanceId [] childIndex st = Inr st"
| "importChildren rec dataObj pos instanceId (rule # others) childIndex st =
     (case getProp dataObj (propertyPath rule) of
        None \<Rightarrow> importChildren rec dataObj pos instanceId others childIndex st
      | Some JNull \<Rightarrow> importChildren rec dataObj pos instanceId others childIndex st
      | Some nestedValue \<Rightarrow>
          if cardinality rule = One \<and> isPlainObject nestedValue then
            bindE (rec nestedValue (fst pos + 320 + 100, snd pos + childIndex * (200 + 80))
                     (Some (instanceId, propertyPath rule)) st)
              (\<lambda>(created, st').
                 importChildren rec dataObj pos instanceId others (childIndex + 1) st')
          else if cardinality rule = Many \<and> isArray (Some nestedValue) then
            bindE (importItems rec pos (fst pos + 320 + 100) instanceId (propertyPath rule)
                     childIndex (elements (Some nestedValue)) st)
              (\<lambda>st'. importChildren rec dataObj pos instanceId others
                        (childIndex + int (length (elements (Some nestedValue)))) st')
          else importChildren rec dataObj pos instanceId others childIndex st)"

text \<open>
  The plain values of the new instance: the entries of the data whose key is neither
  metadata nor a reference property.
\<close>

definition plainValues :: "ConnectionRule list \<Rightarrow> json \<Rightarrow> (string \<times> json) list" where
  "plainValues connectionRules dataObj =
     fold (\<lambda>(key, v) acc.
             if startsWith key ''_'' then acc
             else if key \<in> set (map propertyPath connectionRules) then acc
             else setProp key v acc)
          (ownEntries dataObj) []"

definition schemaTitleOf :: "json \<Rightarrow> string \<Rightarrow> json" where
  "schemaTitleOf schema candidate =
     (if truthy (getField schema ''title'') then
        (case getField schema ''title'' of Some t \<Rightarrow> t | None \<Rightarrow> JNull)
      else if replaceFirst (last (split_on CHR ''/'' candidate)) ''.schema.json'' [] \<noteq> []
      then JStr (replaceFirst (last (split_on CHR ''/'' candidate)) ''.schema.json'' [])
      else JStr ''Unknown'')"

text \<open>
  \<open>createNodeFromData\<close> for an object met for the first time, with the recursive call as
  a parameter. \<open>parent\<close> holds \<open>parentId\<close> and \<open>propertyPath\<close> when both are given and
  truthy.
\<close>

definition createNodeBody ::
  "(json \<Rightarrow> int \<times> int \<Rightarrow> (string \<times> string) option \<Rightarrow> ImportState
      \<Rightarrow> js_error + string option \<times> ImportState)
   \<Rightarrow> catalog \<Rightarrow> json \<Rightarrow> int \<times> int \<Rightarrow> (string \<times> string) option \<Rightarrow> ImportState
   \<Rightarrow> js_error + string option \<times> ImportState" where
  "createNodeBody rec schemas dataObj pos parent st =
     bindE (findMatchingSchema dataObj schemas) (\<lambda>found.
       case found of
         None \<Rightarrow> Inr (None, st\<lparr>impErrors := impErrors st @ [dataObj]\<rparr>)
       | Some (matchedPath, matchedScore) \<Rightarrow>
           (case map_of schemas matchedPath of
              None \<Rightarrow> Inl TypeError
            | Some schema \<Rightarrow>
                (case generateInstanceId (impCounters st) matchedPath of
                   (instanceId, counters') \<Rightarrow>
                     bindE (getSchemaConnectionRules schema matchedPath None) (\<lambda>connectionRules.
                       let node = \<lparr>nodeId = instanceId, nodePosition = pos,
                                   nodeData = Some \<lparr>dataInstanceId = instanceId,
                                                    dataSchemaPath = matchedPath,
                                                    dataSchemaTitle = schemaTitleOf schema matchedPath,
                                                    dataValues =
                                                      Some (plainValues connectionRules dataObj)\<rparr>\<rparr>;
                           newEdges =
                             (case parent of
                                Some (parentId, propPath) \<Rightarrow>
                                  if parentId \<noteq> [] \<and> propPath \<noteq> [] then
                                    [\<lparr>edgeId = ''e-'' @ parentId @ ''-'' @ instanceId @ ''-'' @ propPath,
                                      edgeSource = parentId, edgeTarget = instanceId,
                                      edgeSourceHandle = Some propPath\<rparr>]
                                  else []
                              | None \<Rightarrow> []);
                           st1 = st\<lparr>impNodes := impNodes st @ [node],
                                    impEdges := impEdges st @ newEdges,
                                    impCounters := counters'\<rparr>
                       in bindE (importChildren rec dataObj pos instanceId connectionRules 0 st1)
                            (\<lambda>st2. Inr (Some instanceId, st2))))))"

text \<open>
  \<open>createNodeFromData\<close>; the first argument is the depth of call stack that is left.
\<close>

primrec createNodeFromData ::
  "nat \<Rightarrow> catalog \<Rightarrow> json \<Rightarrow> int \<times> int \<Rightarrow> (string \<times> string) option \<Rightarrow> ImportState
     \<Rightarrow> js_error + string option \<times> ImportState" where
  "createNodeFromData 0 schemas dataObj pos parent st = Inl RangeError"
| "createNodeFromData (Suc depth) schemas dataObj pos parent st =
     createNodeBody (createNodeFromData depth schemas) schemas dataObj pos parent st"

text \<open>The loop of \<open>importFromJson\<close> over the items of a top-level array.\<close>

fun importRoots ::
  "nat \<Rightarrow> catalog \<Rightarrow> int \<Rightarrow> int \<Rightarrow> json list \<Rightarrow> ImportState \<Rightarrow> js_error + ImportState" where
  "importRoots depth schemas x yOffset [] st = Inr st"
| "importRoots depth schemas x yOffset (item # others) st =
     (if isPlainObject item then
        bindE (createNodeFromData depth schemas item (x, yOffset) None st)
          (\<lambda>(created, st'). importRoots depth schemas x (yOffset + (200 + 80)) others st')
      else importRoots depth schemas x yOffset others st)"

record ImportResult =
  success :: bool
  resultNodes :: "Node list"
  resultEdges :: "Edge list"
  resultErrors :: "json list"

text \<open>
  \<open>importFromJson\<close>, handed the instance counters it starts from; the counters it leaves
  are returned beside the result.
\<close>

definition importFromJson ::
  "nat \<Rightarrow> json \<Rightarrow> catalog \<Rightarrow> int \<times> int \<Rightarrow> counters \<Rightarrow> js_error + ImportResult \<times> counters" where
  "importFromJson depth doc schemas startPosition instanceCounters =
     bindE (let st0 = \<lparr>impNodes = [], impEdges = [], impErrors = [],
                        impCounters = instanceCounters\<rparr>
            in if isArray (Some doc)
               then importRoots depth schemas (fst startPosition) (snd startPosition)
                      (elements (Some doc)) st0
               else bindE (createNodeFromData depth schemas doc startPosition None st0)
                      (\<lambda>(created, st'). Inr st'))
       (\<lambda>st. Inr (\<lparr>success = (impErrors st = []), resultNodes = impNodes st,
                     resultEdges = impEdges st, resultErrors = impErrors st\<rparr>,
                   impCounters st))"

text \<open>
  The schemas of a catalog that pass the test of \<open>findMatchingSchema\<close> for a document.
\<close>

definition qualifying :: "json \<Rightarrow> catalog \<Rightarrow> (string \<times> json) set" where
  "qualifying doc schemas =
     set (filter (\<lambda>(candidate, schema). schemaQualifies doc schema = Inr True) schemas)"

text \<open>
  A catalog entry as the catalog's type has it: not \<open>null\<close>, and with a \<open>required\<close> that,
  when it is there, is an array. On such entries the test of \<open>findMatchingSchema\<close> raises no
  exception.
\<close>

definition catalogEntryOk :: "json \<Rightarrow> bool" where
  "catalogEntryOk schema \<longleftrightarrow>
     schema \<noteq> JNull
     \<and> (truthy (getField schema ''required'') \<longrightarrow> isArray (getField schema ''required''))"

text \<open>A later state of an import has the nodes and the errors of an earlier one.\<close>

definition keeps :: "ImportState \<Rightarrow> ImportState \<Rightarrow> bool" where
  "keeps st st' \<longleftrightarrow>
     set (impNodes st) \<subseteq> set (impNodes st') \<and> set (impErrors st) \<subseteq> set (impErrors st')"

section \<open>Example data\<close>

text \<open>Concrete inputs at which the theorems below are instantiated.\<close>

definition exNodeComplete :: json where
  "exNodeComplete =
     JObj [(''id'', JStr ''user-1''),
           (''position'', JObj [(''x'', JNum 0), (''y'', JNum 0)]),
           (''data'', JObj [(''schemaPath'', JStr ''user.schema.json''),
                            (''instanceId'', JStr ''user-1'')])]"

definition exNodeNoInstanceId :: json where
  "exNodeNoInstanceId =
     JObj [(''id'', JStr ''user-2''),
           (''position'', JObj [(''x'', JNum 0), (''y'', JNum 0)]),
           (''data'', JObj [(''schemaPath'', JStr ''user.schema.json'')])]"

definition exNodeNoPosition :: json where
  "exNodeNoPosition =
     JObj [(''id'', JStr ''user-3''),
           (''data'', JObj [(''schemaPath'', JStr ''user.schema.json''),
                            (''instanceId'', JStr ''user-3'')])]"

definition exSnapshot :: "json list \<Rightarrow> json" where
  "exSnapshot nodes = JObj [(''nodes'', JArr nodes), (''edges'', JArr [])]"

definition exParse :: "string \<Rightarrow> json option" where
  "exParse s =
     (if s = ''good'' then Some (exSnapshot [exNodeComplete])
      else if s = ''no-position'' then Some (exSnapshot [exNodeComplete, exNodeNoPosition])
      else if s = ''no-instance-id'' then Some (exSnapshot [exNodeComplete, exNodeNoInstanceId])
      else None)"

definition exUser :: json where
  "exUser =
     JObj [(''type'', JStr ''object''),
           (''properties'',
              JObj [(''name'', JObj [(''type'', JStr ''string'')]),
                    (''address'', JObj [(''$ref'', JStr ''./address.schema.json'')]),
                    (''roles'', JObj [(''$ref'', JStr ''./roles.schema.json'')])]),
           (''required'', JArr [JStr ''name''])]"

definition exAddress :: json where
  "exAddress =
     JObj [(''type'', JStr ''object''),
           (''properties'', JObj [(''city'', JObj [(''type'', JStr ''string'')])])]"

definition exRoles :: json where
  "exRoles =
     JObj [(''allOf'',
              JArr [JObj [(''$ref'', JStr ''../primitives/array.schema.json'')],
                    JObj [(''items'', JObj [(''$ref'', JStr ''./role.schema.json'')])]])]"

definition exRole :: json where
  "exRole =
     JObj [(''type'', JStr ''object''),
           (''properties'', JObj [(''title'', JObj [(''type'', JStr ''string'')])])]"

definition exCatalog :: catalog where
  "exCatalog =
     [(''v1/user/user.schema.json'', exUser),
      (''v1/user/address.schema.json'', exAddress),
      (''v1/user/roles.schema.json'', exRoles),
      (''v1/user/role.schema.json'', exRole)]"




definition exOrder :: json where
  "exOrder =
     JObj [(''type'', JStr ''object''),
           (''properties'',
              JObj [(''total'', JObj [(''$ref'', JStr ''primitives/money.schema.json'')])])]"

definition exMoney :: json where
  "exMoney =
     JObj [(''type'', JStr ''object''),
           (''properties'',
              JObj [(''amount'', JObj [(''type'', JStr ''number'')]),
                    (''currency'', JObj [(''type'', JStr ''string'')])])]"

definition exOrderCatalog :: catalog where
  "exOrderCatalog =
     [(''v1/order/order.schema.json'', exOrder),
      (''v1/primitives/money.schema.json'', exMoney)]"


definition exOrderLines :: json where
  "exOrderLines =
     JObj [(''type'', JStr ''object''),
           (''properties'',
              JObj [(''totals'',
                       JObj [(''type'', JStr ''array''),
                             (''items'', JObj [(''$ref'', JStr ''primitives/money.schema.json'')])])])]"

definition exOrderByKey :: json where
  "exOrderByKey =
     JObj [(''type'', JStr ''object''),
           (''properties'',
              JObj [(''totals'',
                       JObj [(''type'', JStr ''object''),
                             (''patternProperties'',
                                JObj [(''^[a-z]+$'',
                                         JObj [(''$ref'', JStr ''primitives/money.schema.json'')])])])])]"
definition exInstances :: "string \<rightharpoonup> DataInstance" where
  "exInstances =
     [''user-1'' \<mapsto> \<lparr>instId = ''user-1'', schemaPath = ''v1/user/user.schema.json'',
                      position = (0, 0), data = JObj []\<rparr>,
      ''address-1'' \<mapsto> \<lparr>instId = ''address-1'', schemaPath = ''v1/user/address.schema.json'',
                      position = (0, 0), data = JObj []\<rparr>,
      ''address-2'' \<mapsto> \<lparr>instId = ''address-2'', schemaPath = ''v1/user/address.schema.json'',
                      position = (0, 0), data = JObj []\<rparr>,
      ''role-1'' \<mapsto> \<lparr>instId = ''role-1'', schemaPath = ''v1/user/role.schema.json'',
                      position = (0, 0), data = JObj []\<rparr>]"

definition exA :: json where
  "exA =
     JObj [(''type'', JStr ''object''),
           (''properties'',
              JObj [(''label'', JObj [(''type'', JStr ''string'')]),
                    (''partner'', JObj [(''$ref'', JStr ''./b.schema.json'')]),
                    (''friends'', JObj [(''type'', JStr ''array''),
                                        (''items'', JObj [(''$ref'', JStr ''./b.schema.json'')])])])]"

definition exB :: json where
  "exB =
     JObj [(''type'', JStr ''object''),
           (''properties'',
              JObj [(''partner'', JObj [(''$ref'', JStr ''./a.schema.json'')]),
                    (''friends'', JObj [(''type'', JStr ''array''),
                                        (''items'', JObj [(''$ref'', JStr ''./a.schema.json'')])])])]"

definition exCycleCatalog :: catalog where
  "exCycleCatalog = [(''g/a.schema.json'', exA), (''g/b.schema.json'', exB)]"

definition exNode :: "string \<Rightarrow> string \<Rightarrow> Node" where
  "exNode ident path =
     \<lparr>nodeId = ident, nodePosition = (0, 0),
      nodeData = Some \<lparr>dataInstanceId = ident, dataSchemaPath = path,
                       dataSchemaTitle = JStr ident, dataValues = None\<rparr>\<rparr>"

definition exCycleNodes :: "Node list" where
  "exCycleNodes = [exNode ''a-1'' ''g/a.schema.json'', exNode ''b-1'' ''g/b.schema.json'']"

definition exEdge :: "string \<Rightarrow> string \<Rightarrow> string \<Rightarrow> Edge" where
  "exEdge s h t =
     \<lparr>edgeId = s @ ''-'' @ h @ ''-'' @ t, edgeSource = s, edgeTarget = t,
      edgeSourceHandle = Some h\<rparr>"

definition exOneCycle :: "Edge list" where
  "exOneCycle = [exEdge ''a-1'' ''partner'' ''b-1'', exEdge ''b-1'' ''partner'' ''a-1'']"

definition exManyCycle :: "Edge list" where
  "exManyCycle = [exEdge ''a-1'' ''friends'' ''b-1'', exEdge ''b-1'' ''friends'' ''a-1'']"

definition exRulesA :: "ConnectionRule list" where
  "exRulesA =
     [\<lparr>propertyPath = ''partner'', targetSchemaPath = ''g/b.schema.json'',
        cardinality = One, required = False\<rparr>,
      \<lparr>propertyPath = ''friends'', targetSchemaPath = ''g/b.schema.json'',
        cardinality = Many, required = False\<rparr>]"

definition exRec :: "Edge list \<Rightarrow> string \<Rightarrow> string set \<Rightarrow> js_error + json option \<times> string set" where
  "exRec edges t seen = buildObjectFromInstance 2 t exCycleNodes edges exCycleCatalog seen None"

definition exImportCatalog :: catalog where
  "exImportCatalog =
     [(''user.schema.json'',
         JObj [(''type'', JStr ''object''),
               (''properties'',
                  JObj [(''name'', JObj [(''type'', JStr ''string'')]),
                        (''address'', JObj [(''$ref'', JStr ''./address.schema.json'')])]),
               (''required'', JArr [JStr ''name''])]),
      (''address.schema.json'',
         JObj [(''type'', JStr ''object''),
               (''properties'', JObj [(''city'', JObj [(''type'', JStr ''string'')])])])]"

definition exAl :: json where
  "exAl = JObj [(''name'', JStr ''Al''), (''address'', JObj [(''city'', JStr ''X'')])]"

definition exStranger :: json where
  "exStranger = JObj [(''colour'', JStr ''red''), (''weight'', JNum 3)]"


definition exEmptyState :: ImportState where
  "exEmptyState = \<lparr>impNodes = [], impEdges = [], impErrors = [], impCounters = Map.empty\<rparr>"

definition exAddressRule :: ConnectionRule where
  "exAddressRule = \<lparr>propertyPath = ''address'', targetSchemaPath = ''address.schema.json'',
                     cardinality = One, required = False\<rparr>"

definition exSensor :: json where
  "exSensor =
     JObj [(''type'', JStr ''object''),
           (''properties'', JObj [(''a'', JObj [(''type'', JStr ''number'')])]),
           (''required'', JArr [JStr ''constructor''])]"

definition exSensorCatalog :: catalog where
  "exSensorCatalog = [(''s1.schema.json'', exSensor)]"

definition exReading :: json where
  "exReading = JObj [(''a'', JNum 1), (''_note'', JStr ''x'')]"
section \<open>Theorems\<close>

subsection \<open>Evaluation\<close>

text \<open>
  \<open>lowerChar\<close> on the bits of a character, for evaluation: an upper-case ASCII letter has
  the code \<open>010xxxxx\<close> with \<open>xxxxx\<close> from 1 to 26, and its lower-case form has bit 5 set.
\<close>

lemma lowerChar_code [code]:
  "lowerChar (Char b0 b1 b2 b3 b4 b5 b6 b7) =
     (if \<not> b7 \<and> b6 \<and> \<not> b5 \<and> (b0 \<or> b1 \<or> b2 \<or> b3 \<or> b4)
         \<and> \<not> (b4 \<and> b3 \<and> (b2 \<or> (b1 \<and> b0)))
      then Char b0 b1 b2 b3 b4 True b6 b7
      else Char b0 b1 b2 b3 b4 b5 b6 b7)"
proof -
  have table: "map_of (zip ''ABCDEFGHIJKLMNOPQRSTUVWXYZ'' ''abcdefghijklmnopqrstuvwxyz'') =
      (\<lambda>c. if c \<in> set ''ABCDEFGHIJKLMNOPQRSTUVWXYZ''
           then Some (case c of Char c0 c1 c2 c3 c4 c5 c6 c7 \<Rightarrow> Char c0 c1 c2 c3 c4 True c6 c7)
           else None)"
    by (rule ext) auto
  show ?thesis
    unfolding lowerChar_def table
    by (cases b7; cases b6; cases b5; cases b4; cases b3; cases b2; cases b1; cases b0; simp)
qed

subsection \<open>Path resolver\<close>

lemma split_on_not_Nil: "split_on c s \<noteq> []"
  by (induction s) (auto split: list.splits)

lemma hd_split_on: "hd (split_on c s) = takeWhile (\<lambda>x. x \<noteq> c) s"
  by (induction s) (auto split: list.splits simp: split_on_not_Nil)

lemma includesStr_char: "includesStr s [c] = (c \<in> set s)"
  by (induction s) auto

lemma lastIndexOf_absent: "c \<notin> set s \<Longrightarrow> lastIndexOf c s = -1"
  by (induction s) (auto simp: Let_def)

lemma lastIndexOf_last: "c \<notin> set t \<Longrightarrow> lastIndexOf c (s @ c # t) = int (length s)"
  by (induction s) (auto simp: Let_def lastIndexOf_absent)

lemma baseDir_directory: "substring0 s (lastIndexOf CHR ''/'' s) = spec_directory s"
proof (cases "CHR ''/'' \<in> set s")
  case False
  then show ?thesis
    by (simp add: substring0_def spec_directory_def lastIndexOf_absent)
next
  case True
  then have "CHR ''/'' \<in> set (rev s)" by simp
  then obtain a b where ab: "rev s = a @ CHR ''/'' # b" "CHR ''/'' \<notin> set a"
    by (meson split_list_first)
  then have s: "s = rev b @ CHR ''/'' # rev a"
    by (metis rev_append rev.simps(2) rev_rev_ident append.assoc append_Cons append_Nil)
  have "dropWhile (\<lambda>c. c \<noteq> CHR ''/'') (rev s) = CHR ''/'' # b"
    using ab by (auto simp: dropWhile_append3)
  then have "spec_directory s = rev b"
    using True by (simp add: spec_directory_def)
  moreover have "lastIndexOf CHR ''/'' s = int (length b)"
    using lastIndexOf_last[of "CHR ''/''" "rev a" "rev b"] ab s by simp
  ultimately show ?thesis
    using s by (simp add: substring0_def)
qed

lemma fold_applyPart: "fold applyPart ps st = spec_walk st ps"
  by (induction ps arbitrary: st) (auto simp: applyPart_def)

lemma resolveRelativePath_walk:
  "resolveRelativePath basePath rel =
     join ''/'' (spec_walk (spec_segments (spec_directory basePath)) (spec_segments rel))"
  by (simp add: resolveRelativePath_def Let_def baseDir_directory fold_applyPart
      spec_segments_def)

lemma resolveRefPath_eq_spec: "resolveRefPath ref basePath = spec_resolve basePath ref"
  unfolding resolveRefPath_def spec_resolve_def Let_def
  by (auto simp: hd_split_on spec_strip_fragment_def baseDir_directory fold_applyPart
      spec_segments_def includesStr_char)

lemma strip_fragment_idem: "spec_strip_fragment (spec_strip_fragment ref) = spec_strip_fragment ref"
  unfolding spec_strip_fragment_def
  by (metis (mono_tags, lifting) takeWhile_eq_all_conv set_takeWhileD)

lemma resolveRuleRef_eq_spec:
  "resolveRuleRef basePath (spec_strip_fragment ref) = spec_resolve basePath (spec_strip_fragment ref)"
  unfolding resolveRuleRef_def spec_resolve_def Let_def strip_fragment_idem
  by (auto simp: baseDir_directory resolveRelativePath_walk includesStr_char)

text \<open>
  Claim C7. The resolver of the validator (\<open>resolveRefPath\<close>) computes what the specification
  describes: the fragment is stripped; a remainder starting with \<open>./\<close> or \<open>../\<close> is resolved
  against the directory of the base path, \<open>..\<close> popping a segment, \<open>.\<close> and empty segments
  dropped; a remainder without \<open>/\<close> is a sibling of the base path, the bare file name when
  the base path has no directory; any other remainder is returned unchanged. The relative
  resolver of the rule extractor (\<open>resolveRelativePath\<close>) is the same segment walk, and the
  block the extractor applies to a fragment-free path agrees with the resolver. The result
  is a function of the two strings alone: no catalog is an argument.
\<close>

theorem C7_resolver_meets_spec:
  "resolveRefPath ref basePath = spec_resolve basePath ref
   \<and> resolveRelativePath basePath rel =
       join ''/'' (spec_walk (spec_segments (spec_directory basePath)) (spec_segments rel))
   \<and> resolveRuleRef basePath (spec_strip_fragment ref) = spec_resolve basePath ref"
proof -
  have "spec_resolve basePath (spec_strip_fragment ref) = spec_resolve basePath ref"
    by (simp add: spec_resolve_def strip_fragment_idem)
  then show ?thesis
    using resolveRefPath_eq_spec resolveRelativePath_walk resolveRuleRef_eq_spec by simp
qed

subsection \<open>Instance naming\<close>

lemma lt10_cases:
  "k < (10::nat) \<Longrightarrow> k = 0 \<or> k = 1 \<or> k = 2 \<or> k = 3 \<or> k = 4 \<or> k = 5 \<or> k = 6 \<or> k = 7 \<or> k = 8 \<or> k = 9"
  by arith

lemma digitChar_digit: "digitChar d \<in> set ''0123456789''"
  using lt10_cases[of "d mod 10"] unfolding digitChar_def by auto

lemma decimal_digits: "set (decimal n) \<subseteq> set ''0123456789''"
proof (induction n rule: decimal.induct)
  case (1 n)
  show ?case
  proof (cases "n < 10")
    case True
    then show ?thesis using digitChar_digit[of n] by (subst decimal.simps) simp
  next
    case False
    then show ?thesis using 1 digitChar_digit[of "n mod 10"] by (subst decimal.simps) simp 
  qed
qed

lemma digitVal_digitChar: "digitVal (digitChar d) = d mod 10"
  using lt10_cases[of "d mod 10"] unfolding digitChar_def digitVal_def by (auto simp: upt_rec)

lemma undecimal: "foldl (\<lambda>a c. 10 * a + digitVal c) 0 (decimal n) = n"
proof (induction n rule: decimal.induct)
  case (1 n)
  show ?case
  proof (cases "n < 10")
    case True
    then show ?thesis by (subst decimal.simps) (simp add: digitVal_digitChar)
  next
    case False
    then show ?thesis using 1 by (subst decimal.simps) (simp add: digitVal_digitChar)
  qed
qed

lemma decimal_inj: "decimal m = decimal n \<Longrightarrow> m = n"
  by (metis undecimal)


lemma id_split:
  assumes "b1 @ ''-'' @ decimal n1 = b2 @ ''-'' @ decimal n2"
  shows "b1 = b2 \<and> n1 = n2"
proof -
  have nd: "CHR ''-'' \<notin> set (decimal n)" for n
    using decimal_digits[of n] by auto
  have "rev (decimal n1) @ CHR ''-'' # rev b1 = rev (decimal n2) @ CHR ''-'' # rev b2"
    using arg_cong[OF assms, of rev] by simp
  then have "takeWhile (\<lambda>c. c \<noteq> CHR ''-'') (rev (decimal n1) @ CHR ''-'' # rev b1)
           = takeWhile (\<lambda>c. c \<noteq> CHR ''-'') (rev (decimal n2) @ CHR ''-'' # rev b2)" by simp
  moreover have "takeWhile (\<lambda>c. c \<noteq> CHR ''-'') (rev (decimal n) @ CHR ''-'' # r) = rev (decimal n)" for n r
    using nd[of n] by (auto simp: takeWhile_tail takeWhile_eq_all_conv[THEN iffD2])
  ultimately have "rev (decimal n1) = rev (decimal n2)"
    by simp
  then have d: "decimal n1 = decimal n2" by simp
  then show ?thesis using assms decimal_inj by auto
qed

lemma countValue_addOne:
  "countValue (addOne n) =
     (if countValue n < 9007199254740992 then countValue n + 1 else countValue n)"
  by transfer auto

lemma countValue_zero: "countValue zeroCount = 0"
  by transfer simp

lemma countValue_largest: "countValue largestCount = 9007199254740992"
  by transfer simp

lemma countOf_update:
  "countOf (c(b \<mapsto> n)) b' = (if b' = b then countValue n else countOf c b')"
  by (simp add: countOf_def)

lemma callsFor_Cons:
  "callsFor b (p # ps) = (if baseNameOf p = b then Suc (callsFor b ps) else callsFor b ps)"
  by (simp add: callsFor_def)

lemma generateAll_above:
  assumes "\<forall>p \<in> set ps. countOf c (baseNameOf p) + callsFor (baseNameOf p) ps \<le> 9007199254740992"
    and "i \<in> set (generateAll c ps)"
  shows "\<exists>b n. i = b @ ''-'' @ decimal n \<and> countOf c b < n"
  using assms
proof (induction ps arbitrary: c)
  case Nil
  then show ?case by simp
next
  case (Cons p ps)
  let ?b = "baseNameOf p"
  let ?cur = "(case c ?b of Some k \<Rightarrow> k | None \<Rightarrow> zeroCount)"
  let ?c' = "c(?b \<mapsto> addOne ?cur)"
  from Cons.prems(1) have "countOf c ?b + callsFor ?b (p # ps) \<le> 9007199254740992" by simp
  then have below: "countOf c ?b < 9007199254740992" by (simp add: callsFor_Cons)
  then have new: "countValue (addOne ?cur) = countOf c ?b + 1"
    by (simp add: countValue_addOne countOf_def)
  have bound': "\<forall>q \<in> set ps. countOf ?c' (baseNameOf q) + callsFor (baseNameOf q) ps \<le> 9007199254740992"
  proof
    fix q assume q: "q \<in> set ps"
    with Cons.prems(1) have "countOf c (baseNameOf q) + callsFor (baseNameOf q) (p # ps) \<le> 9007199254740992"
      by simp
    then show "countOf ?c' (baseNameOf q) + callsFor (baseNameOf q) ps \<le> 9007199254740992"
      using new by (auto simp: countOf_update callsFor_Cons split: if_splits)
  qed
  from Cons.prems(2) consider "i = ?b @ ''-'' @ decimal (countValue (addOne ?cur))"
    | "i \<in> set (generateAll ?c' ps)"
    by (auto simp: generateInstanceId_def Let_def)
  then show ?case
  proof cases
    case 1
    with new show ?thesis by (intro exI[of _ ?b] exI[of _ "countOf c ?b + 1"]) simp
  next
    case 2
    from Cons.IH[OF bound' 2] obtain b n where
      bn: "i = b @ ''-'' @ decimal n" "countOf ?c' b < n"
      by blast
    then have "countOf c b < n"
      using new by (cases "b = ?b") (auto simp: countOf_update)
    with bn(1) show ?thesis by blast
  qed
qed

lemma generateAll_distinct:
  assumes "\<forall>p \<in> set ps. countOf c (baseNameOf p) + callsFor (baseNameOf p) ps \<le> 9007199254740992"
  shows "distinct (generateAll c ps)"
  using assms
proof (induction ps arbitrary: c)
  case Nil
  then show ?case by simp
next
  case (Cons p ps)
  let ?b = "baseNameOf p"
  let ?cur = "(case c ?b of Some k \<Rightarrow> k | None \<Rightarrow> zeroCount)"
  let ?c' = "c(?b \<mapsto> addOne ?cur)"
  from Cons.prems have "countOf c ?b + callsFor ?b (p # ps) \<le> 9007199254740992" by simp
  then have below: "countOf c ?b < 9007199254740992" by (simp add: callsFor_Cons)
  then have new: "countValue (addOne ?cur) = countOf c ?b + 1"
    by (simp add: countValue_addOne countOf_def)
  have bound': "\<forall>q \<in> set ps. countOf ?c' (baseNameOf q) + callsFor (baseNameOf q) ps \<le> 9007199254740992"
  proof
    fix q assume q: "q \<in> set ps"
    with Cons.prems have "countOf c (baseNameOf q) + callsFor (baseNameOf q) (p # ps) \<le> 9007199254740992"
      by simp
    then show "countOf ?c' (baseNameOf q) + callsFor (baseNameOf q) ps \<le> 9007199254740992"
      using new by (auto simp: countOf_update callsFor_Cons split: if_splits)
  qed
  have notin: "?b @ ''-'' @ decimal (countValue (addOne ?cur)) \<notin> set (generateAll ?c' ps)"
  proof
    assume "?b @ ''-'' @ decimal (countValue (addOne ?cur)) \<in> set (generateAll ?c' ps)"
    from generateAll_above[OF bound' this] obtain b n where
      bn: "?b @ ''-'' @ decimal (countValue (addOne ?cur)) = b @ ''-'' @ decimal n"
          "countOf ?c' b < n" by blast
    from id_split[OF bn(1)] have "b = ?b" "n = countValue (addOne ?cur)" by auto
    with bn(2) show False by (simp add: countOf_update)
  qed
  have rest: "distinct (generateAll ?c' ps)"
    by (rule Cons.IH[OF bound'])
  have eq: "generateAll c (p # ps) =
      (?b @ ''-'' @ decimal (countValue (addOne ?cur))) # generateAll ?c' ps"
    by (simp add: generateInstanceId_def Let_def)
  show ?case
    unfolding eq distinct.simps by (intro conjI notin rest)
qed


lemma split_on_no_separator: "c \<notin> set s \<Longrightarrow> split_on c s = [s]"
  by (induction s) auto

lemma split_on_two: "c \<in> set s \<Longrightarrow> \<exists>p q ps. split_on c s = p # q # ps"
proof (induction s)
  case Nil
  then show ?case by simp
next
  case (Cons x xs)
  show ?case
  proof (cases "x = c")
    case True
    then show ?thesis using split_on_not_Nil[of c xs] by (cases "split_on c xs") auto
  next
    case False
    with Cons.prems have "c \<in> set xs" by simp
    from Cons.IH[OF this] False show ?thesis by auto
  qed
qed

lemma last_split_on:
  "c \<notin> set f \<Longrightarrow> last (split_on c (d @ c # f)) = f"
proof (induction d)
  case Nil
  then show ?case by (simp add: split_on_no_separator)
next
  case (Cons x d)
  have "c \<in> set (d @ c # f)" by simp
  from split_on_two[OF this] obtain p q ps where s: "split_on c (d @ c # f) = p # q # ps"
    by blast
  with Cons show ?case by auto
qed

lemma startsWith_append: "startsWith (p @ s) p"
  by (induction p) auto

lemma replaceFirst_absent:
  "pat \<noteq> [] \<Longrightarrow> hd pat \<notin> set s \<Longrightarrow> replaceFirst s pat rep = s"
  by (induction s) (auto simp: neq_Nil_conv)

lemma replaceFirst_suffix:
  "pat \<noteq> [] \<Longrightarrow> hd pat \<notin> set s \<Longrightarrow> replaceFirst (s @ pat) pat [] = s"
proof (induction s)
  case Nil
  then show ?case using startsWith_append[of pat "[]"] by (cases pat) auto
next
  case (Cons x s)
  then show ?case by (auto simp: neq_Nil_conv)
qed

lemma replaceFirst_json_kept:
  "CHR ''.'' \<notin> set s \<Longrightarrow> replaceFirst (s @ ''.json'') ''.schema.json'' [] = s @ ''.json''"
  by (induction s) auto

lemma baseNameOf_file:
  assumes "CHR ''/'' \<notin> set fileName" "fileName \<noteq> []"
  shows "baseNameOf (dir @ ''/'' @ fileName) = baseNameOf fileName"
  using assms last_split_on[of "CHR ''/''" fileName dir]
  by (simp add: baseNameOf_def split_on_no_separator)

lemma baseNameOf_stem:
  assumes "CHR ''/'' \<notin> set stem" "CHR ''.'' \<notin> set stem" "stem \<noteq> []"
  shows "baseNameOf (stem @ ''.schema.json'') = stem" "baseNameOf (stem @ ''.json'') = stem"
proof -
  have a: "replaceFirst (stem @ ''.schema.json'') ''.schema.json'' [] = stem"
    using assms(2) by (intro replaceFirst_suffix) simp_all
  have b: "replaceFirst stem ''.json'' [] = stem"
    using assms(2) by (intro replaceFirst_absent) simp_all
  have c: "replaceFirst (stem @ ''.json'') ''.json'' [] = stem"
    using assms(2) by (intro replaceFirst_suffix) simp_all
  have d: "split_on CHR ''/'' (stem @ ''.schema.json'') = [stem @ ''.schema.json'']"
    "split_on CHR ''/'' (stem @ ''.json'') = [stem @ ''.json'']"
    using assms(1) by (simp_all add: split_on_no_separator)
  show "baseNameOf (stem @ ''.schema.json'') = stem"
    using a b d(1) by (simp add: baseNameOf_def)
  show "baseNameOf (stem @ ''.json'') = stem"
    using c d(2) assms(2) by (simp add: baseNameOf_def replaceFirst_json_kept)
qed


text \<open>
  Claim C9, as amended. Take a finite sequence of \<open>generateInstanceId\<close> calls with no reset
  and no \<open>setInstanceCounter\<close> in between, from any counters, such that for every stem
  the sequence uses, the count it starts with plus the number of calls for that stem is
  at most \<open>2^53\<close>. Then the identifiers returned are pairwise distinct, for any schema
  paths, equal or different. The counter is keyed on the stem of the file name: a path
  and its last segment give the same result, so all paths ending in the same file name
  share one counter; for a file name that is a stem followed by \<open>.schema.json\<close> or by
  \<open>.json\<close> the identifier is the stem, \<open>-\<close> and the new count, and the new count is stored
  under the stem; and the new count is the old one plus one as long as the old one is
  below \<open>2^53\<close>.
\<close>

theorem C9_generated_ids_distinct:
  "((\<forall>p \<in> set ps. countOf c (baseNameOf p) + callsFor (baseNameOf p) ps \<le> 9007199254740992)
      \<longrightarrow> distinct (generateAll c ps))
   \<and> (CHR ''/'' \<notin> set fileName \<and> fileName \<noteq> [] \<longrightarrow>
        generateInstanceId c (dir @ ''/'' @ fileName) = generateInstanceId c fileName)
   \<and> (CHR ''/'' \<notin> set stem \<and> CHR ''.'' \<notin> set stem \<and> stem \<noteq> []
        \<and> (fileName = stem @ ''.schema.json'' \<or> fileName = stem @ ''.json'')
        \<and> current = (case c stem of Some n \<Rightarrow> n | None \<Rightarrow> zeroCount) \<longrightarrow>
        generateInstanceId c fileName
          = (stem @ ''-'' @ decimal (countValue (addOne current)), c(stem \<mapsto> addOne current))
        \<and> (countValue current < 9007199254740992 \<longrightarrow>
              countValue (addOne current) = countValue current + 1))"
proof (intro conjI impI)
  assume "\<forall>p \<in> set ps. countOf c (baseNameOf p) + callsFor (baseNameOf p) ps \<le> 9007199254740992"
  then show "distinct (generateAll c ps)" by (rule generateAll_distinct)
next
  assume "CHR ''/'' \<notin> set fileName \<and> fileName \<noteq> []"
  then have "baseNameOf (dir @ ''/'' @ fileName) = baseNameOf fileName"
    by (intro baseNameOf_file) simp_all
  then show "generateInstanceId c (dir @ ''/'' @ fileName) = generateInstanceId c fileName"
    by (simp add: generateInstanceId_def)
next
  assume a: "CHR ''/'' \<notin> set stem \<and> CHR ''.'' \<notin> set stem \<and> stem \<noteq> []
        \<and> (fileName = stem @ ''.schema.json'' \<or> fileName = stem @ ''.json'')
        \<and> current = (case c stem of Some n \<Rightarrow> n | None \<Rightarrow> zeroCount)"
  then have "baseNameOf fileName = stem"
    using baseNameOf_stem[of stem] by auto
  with a show "generateInstanceId c fileName
          = (stem @ ''-'' @ decimal (countValue (addOne current)), c(stem \<mapsto> addOne current))"
    by (simp add: generateInstanceId_def Let_def)
next
  assume "countValue current < 9007199254740992"
  then show "countValue (addOne current) = countValue current + 1"
    by (simp add: countValue_addOne)
qed

theorem C9_generated_ids_distinct_witness:
  "generateAll Map.empty
      [''v1/user/user.schema.json'', ''v2/user.json'', ''v1/user/address.schema.json'']
     = [''user-1'', ''user-2'', ''address-1'']
   \<and> distinct (generateAll Map.empty
        [''v1/user/user.schema.json'', ''v2/user.json'', ''v1/user/address.schema.json''])
   \<and> generateInstanceId Map.empty ''v1/user/user.schema.json''
       = generateInstanceId Map.empty ''user.schema.json''
   \<and> generateInstanceId Map.empty ''user.schema.json''
       = (''user-'' @ decimal (countValue (addOne zeroCount)), [''user'' \<mapsto> addOne zeroCount])
   \<and> countValue (addOne zeroCount) = 1"
proof -
  have ev: "generateAll Map.empty
      [''v1/user/user.schema.json'', ''v2/user.json'', ''v1/user/address.schema.json'']
     = [''user-1'', ''user-2'', ''address-1'']"
    by code_simp
  have b: "baseNameOf ''v1/user/user.schema.json'' = ''user''"
    "baseNameOf ''v2/user.json'' = ''user''"
    "baseNameOf ''v1/user/address.schema.json'' = ''address''"
    by code_simp+
  have bound: "\<forall>p \<in> set [''v1/user/user.schema.json'', ''v2/user.json'', ''v1/user/address.schema.json''].
      countOf Map.empty (baseNameOf p)
        + callsFor (baseNameOf p)
            [''v1/user/user.schema.json'', ''v2/user.json'', ''v1/user/address.schema.json'']
        \<le> 9007199254740992"
    by (simp add: b countOf_def callsFor_def countValue_zero)
  note d = C9_generated_ids_distinct[where c = Map.empty
      and ps = "[''v1/user/user.schema.json'', ''v2/user.json'', ''v1/user/address.schema.json'']"
      and fileName = "''user.schema.json''" and dir = "''v1/user''" and stem = "''user''"
      and current = zeroCount]
  from d[THEN conjunct1] bound
  have c1: "distinct (generateAll Map.empty
        [''v1/user/user.schema.json'', ''v2/user.json'', ''v1/user/address.schema.json''])"
    by blast
  from d[THEN conjunct2, THEN conjunct1]
  have c2: "generateInstanceId Map.empty ''v1/user/user.schema.json''
       = generateInstanceId Map.empty ''user.schema.json''"
    by simp
  from d[THEN conjunct2, THEN conjunct2]
  have c3: "generateInstanceId Map.empty ''user.schema.json''
       = (''user-'' @ decimal (countValue (addOne zeroCount)), [''user'' \<mapsto> addOne zeroCount])
     \<and> countValue (addOne zeroCount) = 1"
    by (simp add: countValue_zero)
  from ev c1 c2 c3 show ?thesis by blast
qed

text \<open>
  The claim as written fails once a counter holds \<open>2^53\<close>: the count no longer grows, and
  two calls for the same stem return the same identifier.
\<close>

theorem C9_counterexample:
  "generateAll [''user'' \<mapsto> largestCount] [''v1/user.schema.json'', ''v2/user.json'']
     = [''user-9007199254740992'', ''user-9007199254740992'']
   \<and> \<not> distinct (generateAll [''user'' \<mapsto> largestCount]
                      [''v1/user.schema.json'', ''v2/user.json''])"
proof -
  have b: "baseNameOf ''v1/user.schema.json'' = ''user''" "baseNameOf ''v2/user.json'' = ''user''"
    by code_simp+
  have p: "decimal 9007199254740992 = ''9007199254740992''"
    by (simp add: decimal.simps digitChar_def)
  have "generateAll [''user'' \<mapsto> largestCount] [''v1/user.schema.json'', ''v2/user.json'']
     = [''user-9007199254740992'', ''user-9007199254740992'']"
    by (simp add: generateInstanceId_def Let_def b countValue_addOne countValue_largest p)
  then show ?thesis by simp
qed

subsection \<open>Persistence\<close>

lemma someE_not_False:
  "x \<in> set xs \<Longrightarrow> f x \<noteq> Inr False \<Longrightarrow> someE f xs \<noteq> Inr False"
  by (induction xs) (auto simp: bindE_def split: sum.splits if_splits)

lemma load_cases:
  "(\<exists>s state. item = Some s \<and> s \<noteq> [] \<and> parse s = Some state
       \<and> loadBuilderState parse item = (Some state, item))
   \<or> loadBuilderState parse item = (None, None)
   \<or> (item = Some [] \<and> loadBuilderState parse item = (None, item))"
  by (auto simp: loadBuilderState_def clearBuilderState_def
      split: option.splits sum.splits bool.splits)

lemma load_invalid_node:
  assumes "parse s = Some state" "s \<noteq> []"
    and "n \<in> set (elements (optMember (Some state) ''nodes''))"
    and "invalidNode n \<noteq> Inr False"
  shows "loadBuilderState parse (Some s) = (None, None)"
proof -
  have "someE invalidNode (elements (optMember (Some state) ''nodes'')) \<noteq> Inr False"
    using someE_not_False assms(3,4) by metis
  then show ?thesis
    using assms(1,2)
    by (auto simp: loadBuilderState_def clearBuilderState_def
        split: option.splits sum.splits bool.splits)
qed

lemma load_invalid_edge:
  assumes "parse s = Some state" "s \<noteq> []"
    and "e \<in> set (elements (optMember (Some state) ''edges''))"
    and "invalidEdge e \<noteq> Inr False"
  shows "loadBuilderState parse (Some s) = (None, None)"
proof -
  have "someE invalidEdge (elements (optMember (Some state) ''edges'')) \<noteq> Inr False"
    using someE_not_False assms(3,4) by metis
  then show ?thesis
    using assms(1,2)
    by (auto simp: loadBuilderState_def clearBuilderState_def
        split: option.splits sum.splits bool.splits)
qed

lemma invalidNode_lacks:
  "getField n ''id'' = None \<or> getField n ''position'' = None
     \<or> optMember (getField n ''data'') ''schemaPath'' = None
     \<or> optMember (getField n ''data'') ''instanceId'' = None
   \<Longrightarrow> invalidNode n \<noteq> Inr False"
  by (cases n) (auto simp: invalidNode_def bindE_def)

lemma invalidEdge_lacks:
  "getField e ''id'' = None \<or> getField e ''source'' = None \<or> getField e ''target'' = None
   \<Longrightarrow> invalidEdge e \<noteq> Inr False"
  by (cases e) (auto simp: invalidEdge_def bindE_def)

text \<open>
  Claim C8. \<open>loadBuilderState\<close> is all-or-nothing. It returns the parsed snapshot unchanged
  and leaves the stored item alone, or it returns \<open>null\<close> and the item is gone
  afterwards; only an empty stored string, which \<open>getItem\<close> reports as falsy and which
  holds no snapshot, is left where it is. In particular the result is \<open>null\<close>, with the
  item removed, whenever a record of the saved \<open>nodes\<close> array lacks \<open>id\<close>, \<open>position\<close>
  or \<open>data.schemaPath\<close>, or a record of the saved \<open>edges\<close> array lacks \<open>id\<close>, \<open>source\<close>
  or \<open>target\<close>.
\<close>

theorem C8_load_all_or_nothing:
  "((\<exists>s state. item = Some s \<and> s \<noteq> [] \<and> parse s = Some state
        \<and> loadBuilderState parse item = (Some state, item))
    \<or> loadBuilderState parse item = (None, None)
    \<or> (item = Some [] \<and> loadBuilderState parse item = (None, item)))
   \<and> (\<forall>s state. s \<noteq> [] \<and> parse s = Some state
         \<and> ((\<exists>n \<in> set (elements (optMember (Some state) ''nodes'')).
                 getField n ''id'' = None \<or> getField n ''position'' = None
                 \<or> optMember (getField n ''data'') ''schemaPath'' = None)
              \<or> (\<exists>e \<in> set (elements (optMember (Some state) ''edges'')).
                 getField e ''id'' = None \<or> getField e ''source'' = None
                 \<or> getField e ''target'' = None))
       \<longrightarrow> loadBuilderState parse (Some s) = (None, None))"
proof (intro conjI allI impI)
  show "(\<exists>s state. item = Some s \<and> s \<noteq> [] \<and> parse s = Some state
        \<and> loadBuilderState parse item = (Some state, item))
    \<or> loadBuilderState parse item = (None, None)
    \<or> (item = Some [] \<and> loadBuilderState parse item = (None, item))"
    by (rule load_cases)
next
  fix s state
  assume h: "s \<noteq> [] \<and> parse s = Some state
         \<and> ((\<exists>n \<in> set (elements (optMember (Some state) ''nodes'')).
                 getField n ''id'' = None \<or> getField n ''position'' = None
                 \<or> optMember (getField n ''data'') ''schemaPath'' = None)
              \<or> (\<exists>e \<in> set (elements (optMember (Some state) ''edges'')).
                 getField e ''id'' = None \<or> getField e ''source'' = None
                 \<or> getField e ''target'' = None))"
  then consider
      n where "n \<in> set (elements (optMember (Some state) ''nodes''))" "invalidNode n \<noteq> Inr False"
    | e where "e \<in> set (elements (optMember (Some state) ''edges''))" "invalidEdge e \<noteq> Inr False"
    using invalidNode_lacks invalidEdge_lacks by blast
  then show "loadBuilderState parse (Some s) = (None, None)"
  proof cases
    case 1
    then show ?thesis using load_invalid_node h by blast
  next
    case 2
    then show ?thesis using load_invalid_edge h by blast
  qed
qed

theorem C8_load_all_or_nothing_witness:
  "loadBuilderState exParse (Some ''good'') = (Some (exSnapshot [exNodeComplete]), Some ''good'')
   \<and> exParse ''no-position'' = Some (exSnapshot [exNodeComplete, exNodeNoPosition])
   \<and> exNodeNoPosition \<in> set (elements (optMember (exParse ''no-position'') ''nodes''))
   \<and> getField exNodeNoPosition ''position'' = None
   \<and> loadBuilderState exParse (Some ''no-position'') = (None, None)"
proof -
  have p: "exParse ''no-position'' = Some (exSnapshot [exNodeComplete, exNodeNoPosition])"
    by (simp add: exParse_def)
  have m: "exNodeNoPosition \<in> set (elements (optMember (exParse ''no-position'') ''nodes''))"
    by (simp add: exParse_def exSnapshot_def)
  have l: "getField exNodeNoPosition ''position'' = None"
    by (simp add: exNodeNoPosition_def)
  have g: "loadBuilderState exParse (Some ''good'') = (Some (exSnapshot [exNodeComplete]), Some ''good'')"
    by (simp add: loadBuilderState_def exParse_def exSnapshot_def exNodeComplete_def
        invalidNode_def bindE_def)
  have "loadBuilderState exParse (Some ''no-position'') = (None, None)"
    using C8_load_all_or_nothing[of "Some ''good''" exParse, THEN conjunct2, rule_format,
        of "''no-position''" "exSnapshot [exNodeComplete, exNodeNoPosition]"] p m l
    by auto
  then show ?thesis using p m l g by simp
qed

text \<open>
  Claim C10. A saved node without \<open>data.instanceId\<close> makes \<open>loadBuilderState\<close> return
  \<open>null\<close> and remove the stored item, whatever else the node carries; the witness is a
  node that has \<open>id\<close>, \<open>position\<close> and \<open>data.schemaPath\<close>.
\<close>

theorem C10_load_requires_instanceId:
  "s \<noteq> [] \<Longrightarrow> parse s = Some state
   \<Longrightarrow> n \<in> set (elements (optMember (Some state) ''nodes''))
   \<Longrightarrow> optMember (getField n ''data'') ''instanceId'' = None
   \<Longrightarrow> loadBuilderState parse (Some s) = (None, None)"
  using load_invalid_node invalidNode_lacks by blast

theorem C10_load_requires_instanceId_witness:
  "truthy (getField exNodeNoInstanceId ''id'')
   \<and> truthy (getField exNodeNoInstanceId ''position'')
   \<and> truthy (optMember (getField exNodeNoInstanceId ''data'') ''schemaPath'')
   \<and> optMember (getField exNodeNoInstanceId ''data'') ''instanceId'' = None
   \<and> loadBuilderState exParse (Some ''no-instance-id'') = (None, None)"
proof -
  have p: "exParse ''no-instance-id'' = Some (exSnapshot [exNodeComplete, exNodeNoInstanceId])"
    by (simp add: exParse_def)
  have m: "exNodeNoInstanceId
             \<in> set (elements (optMember (Some (exSnapshot [exNodeComplete, exNodeNoInstanceId])) ''nodes''))"
    by (simp add: exSnapshot_def)
  have l: "optMember (getField exNodeNoInstanceId ''data'') ''instanceId'' = None"
    by (simp add: exNodeNoInstanceId_def)
  have "loadBuilderState exParse (Some ''no-instance-id'') = (None, None)"
    using C10_load_requires_instanceId[of "''no-instance-id''" exParse
        "exSnapshot [exNodeComplete, exNodeNoInstanceId]" exNodeNoInstanceId] p m l
    by simp
  then show ?thesis using l by (simp add: exNodeNoInstanceId_def)
qed

subsection \<open>Connection rules\<close>

lemma bindE_Inr: "bindE m f = Inr y \<longleftrightarrow> (\<exists>v. m = Inr v \<and> f v = Inr y)"
  by (cases m) (auto simp: bindE_def)

lemma concatE_Inr_mem:
  "concatE f xs = Inr ys \<Longrightarrow> y \<in> set ys \<Longrightarrow> \<exists>x \<in> set xs. \<exists>zs. f x = Inr zs \<and> y \<in> set zs"
  by (induction xs arbitrary: ys) (auto simp: bindE_Inr)

lemma findSchema_Some:
  assumes "findSchema (Some cat) p = (k, s)"
  shows "s = map_of cat k
         \<and> (k = p \<or> (k \<in> set (map fst cat) \<and> k \<noteq> [] \<and> (endsWith k p \<or> endsWith p k)
                       \<and> \<not> truthy (map_of cat p)))"
  using assms
  by (auto simp: findSchema_def find_Some_iff split: if_splits option.splits)

lemma isPrimitiveSchema_falsy: "\<not> truthy s \<Longrightarrow> isPrimitiveSchema s = Inr False"
  by (simp add: isPrimitiveSchema_def)

lemma directRefRules_ok:
  assumes "directRefRules sp (Some cat) reqs name ref = Inr rs" "r \<in> set rs"
  shows "ruleOk cat name r"
proof -
  from assms obtain m where m: "refFilePart ref = Some m" "endsWith m ''.json''"
      "\<not> isPrimitiveSchemaPath (resolveRuleRef sp m)"
    by (auto simp: directRefRules_def Let_def split: option.splits if_splits)
  obtain k s where ks: "findSchema (Some cat) (resolveRuleRef sp m) = (k, s)"
    by (cases "findSchema (Some cat) (resolveRuleRef sp m)")
  note fs = findSchema_Some[OF ks]
  have tgt: "targetSchemaPath r = k \<and> propertyPath r = name
             \<and> isPrimitiveSchema s = Inr False"
    using assms m ks
    by (auto simp: directRefRules_def Let_def bindE_Inr isPrimitiveSchema_falsy
        split: if_splits)
  show ?thesis
    unfolding ruleOk_def using tgt fs m(3) by (intro conjI) (auto intro!: exI[of _ "resolveRuleRef sp m"])
qed

lemma arrayItemsRules_ok:
  assumes "arrayItemsRules sp (Some cat) reqs name ref = Inr rs" "r \<in> set rs"
  shows "ruleOk cat name r"
proof -
  from assms obtain m where m: "refFilePart ref = Some m" "endsWith m ''.json''"
      "\<not> isPrimitiveSchemaPath (resolveRuleRef sp m)"
    by (auto simp: arrayItemsRules_def Let_def split: option.splits if_splits)
  have tgt: "targetSchemaPath r = resolveRuleRef sp m \<and> propertyPath r = name
             \<and> isPrimitiveSchema (map_of cat (resolveRuleRef sp m)) = Inr False"
    using assms m
    by (auto simp: arrayItemsRules_def Let_def bindE_Inr isPrimitiveSchema_falsy
        split: if_splits)
  show ?thesis
    unfolding ruleOk_def using tgt m(3) by (intro conjI) (auto intro!: exI[of _ "resolveRuleRef sp m"])
qed

lemma patternRules_Cons_cases:
  assumes "patternRules sp cat reqs name ((pattern, patternDef) # rest) = Inr rs"
  shows "patternRules sp cat reqs name rest = Inr rs
         \<or> (\<exists>refv ref m k s.
               member (Some patternDef) ''$ref'' = Inr refv \<and> truthy refv
               \<and> asString refv = Some ref \<and> refFilePart ref = Some m \<and> endsWith m ''.json''
               \<and> \<not> isPrimitiveSchemaPath (resolveRuleRef sp m)
               \<and> findSchema cat (resolveRuleRef sp m) = (k, s)
               \<and> (if truthy s then isPrimitiveSchema s else Inr False) = Inr False
               \<and> rs = [\<lparr>propertyPath = name, targetSchemaPath = k, cardinality = Many,
                        required = (JStr name \<in> set reqs)\<rparr>])"
proof -
  let ?rest = "patternRules sp cat reqs name rest"
  from assms obtain refv where rv: "member (Some patternDef) ''$ref'' = Inr refv"
    by (auto simp: bindE_Inr)
  show ?thesis
  proof (cases "truthy refv \<and> asString refv \<noteq> None")
    case False
    then have "(if truthy refv then asString refv else None) = None" by auto
    then show ?thesis using assms rv by (simp add: bindE_def)
  next
    case True
    then obtain ref where ref: "truthy refv" "asString refv = Some ref" by auto
    show ?thesis
    proof (cases "refFilePart ref")
      case None
      then show ?thesis using assms rv ref by (simp add: bindE_def)
    next
      case (Some m)
      show ?thesis
      proof (cases "endsWith m ''.json'' \<and> \<not> isPrimitiveSchemaPath (resolveRuleRef sp m)")
        case False
        then show ?thesis using assms rv ref Some
          by (cases "endsWith m ''.json''") (simp_all add: bindE_def Let_def)
      next
        case True
        obtain k s where ks: "findSchema cat (resolveRuleRef sp m) = (k, s)"
          by (cases "findSchema cat (resolveRuleRef sp m)")
        from assms rv ref Some True ks obtain prim where
          prim: "(if truthy s then isPrimitiveSchema s else Inr False) = Inr prim"
            "(if prim then ?rest
              else Inr [\<lparr>propertyPath = name, targetSchemaPath = k, cardinality = Many,
                        required = (JStr name \<in> set reqs)\<rparr>]) = Inr rs"
          by (auto simp: Let_def bindE_Inr)
        show ?thesis
        proof (cases prim)
          case True
          then show ?thesis using prim by simp
        next
          case False
          then have "rs = [\<lparr>propertyPath = name, targetSchemaPath = k, cardinality = Many,
                        required = (JStr name \<in> set reqs)\<rparr>]"
            using prim(2) by simp
          then show ?thesis using rv ref Some True ks prim(1) False
            by (intro disjI2 exI[of _ refv] exI[of _ ref] exI[of _ m] exI[of _ k] exI[of _ s]) simp
        qed
      qed
    qed
  qed
qed

lemma patternRules_ok:
  assumes "patternRules sp (Some cat) reqs name es = Inr rs" "r \<in> set rs"
  shows "ruleOk cat name r"
  using assms
proof (induction es)
  case Nil
  then show ?case by simp
next
  case (Cons e es)
  obtain pattern patternDef where e: "e = (pattern, patternDef)" by (cases e)
  from patternRules_Cons_cases[OF Cons.prems(1)[unfolded e]]
  show ?case
  proof
    assume "patternRules sp (Some cat) reqs name es = Inr rs"
    then show ?thesis using Cons by simp
  next
    assume "\<exists>refv ref m k s.
               member (Some patternDef) ''$ref'' = Inr refv \<and> truthy refv
               \<and> asString refv = Some ref \<and> refFilePart ref = Some m \<and> endsWith m ''.json''
               \<and> \<not> isPrimitiveSchemaPath (resolveRuleRef sp m)
               \<and> findSchema (Some cat) (resolveRuleRef sp m) = (k, s)
               \<and> (if truthy s then isPrimitiveSchema s else Inr False) = Inr False
               \<and> rs = [\<lparr>propertyPath = name, targetSchemaPath = k, cardinality = Many,
                        required = (JStr name \<in> set reqs)\<rparr>]"
    then obtain m k s where
      m: "\<not> isPrimitiveSchemaPath (resolveRuleRef sp m)"
         "findSchema (Some cat) (resolveRuleRef sp m) = (k, s)"
         "(if truthy s then isPrimitiveSchema s else Inr False) = Inr False"
         "rs = [\<lparr>propertyPath = name, targetSchemaPath = k, cardinality = Many,
                        required = (JStr name \<in> set reqs)\<rparr>]"
      by blast
    note fs = findSchema_Some[OF m(2)]
    have "isPrimitiveSchema s = Inr False"
      using m(3) isPrimitiveSchema_falsy by (cases "truthy s") auto
    then show ?thesis
      unfolding ruleOk_def using fs m(1,4) Cons.prems(2)
      by (intro conjI) (auto intro!: exI[of _ "resolveRuleRef sp m"])
  qed
qed

lemma processProperty_ok:
  assumes "processProperty sp (Some cat) reqs name v = Inr rs" "r \<in> set rs"
  shows "ruleOk cat name r"
  using assms directRefRules_ok arrayItemsRules_ok patternRules_ok
  by (auto simp: processProperty_def split: if_splits option.splits)

lemma rules_ok:
  assumes "getSchemaConnectionRules schema sp (Some cat) = Inr rules" "r \<in> set rules"
  shows "\<exists>name. ruleOk cat name r"
proof -
  from assms(1) obtain reqs props where
    c: "concatE (\<lambda>(propName, propValue). processProperty sp (Some cat) reqs propName propValue) props = Inr rules"
    by (auto simp: getSchemaConnectionRules_def bindE_Inr)
  from concatE_Inr_mem[OF c assms(2)] show ?thesis
    using processProperty_ok by fastforce
qed








lemma concatE_Inr_each:
  "concatE f xs = Inr ys \<Longrightarrow> x \<in> set xs \<Longrightarrow> \<exists>zs. f x = Inr zs"
  by (induction xs arbitrary: ys) (auto simp: bindE_Inr)





lemma rule_targets_not_primitive_by_content:
  assumes "getSchemaConnectionRules schema sp (Some cat) = Inr rules" "r \<in> set rules"
  shows "isPrimitiveSchema (map_of cat (targetSchemaPath r)) = Inr False"
  using rules_ok[OF assms] unfolding ruleOk_def by blast

lemma arrayItemsRules_passes_heuristic:
  assumes "arrayItemsRules sp cat reqs name ref = Inr rs" "r \<in> set rs"
  shows "\<not> isPrimitiveSchemaPath (targetSchemaPath r)"
  using assms
  by (auto simp: arrayItemsRules_def Let_def bindE_Inr split: option.splits if_splits)

text \<open>
  Claim C4. The claim fails on the code. In the branch for direct references and in the
  branch for \<open>patternProperties\<close> the path heuristic is asked about the path resolved from
  the \<open>$ref\<close> text, and only afterwards is that path replaced by the catalog key that
  suffix matching finds; the key is not asked about again. The reference
  \<open>primitives/money.schema.json\<close> passes the heuristic, is found under the key
  \<open>v1/primitives/money.schema.json\<close>, and both branches emit a rule whose target the
  heuristic calls primitive. The branch for arrays never replaces the path: for the same
  reference its rule targets the path as written, which the heuristic does not call
  primitive (\<open>arrayItemsRules_passes_heuristic\<close> shows this for every input).
\<close>

theorem C4_suffix_match_targets_primitive_path:
  "getSchemaConnectionRules exOrder ''v1/order/order.schema.json'' (Some exOrderCatalog) =
     Inr [\<lparr>propertyPath = ''total'', targetSchemaPath = ''v1/primitives/money.schema.json'',
            cardinality = One, required = False\<rparr>]
   \<and> getSchemaConnectionRules exOrderByKey ''v1/order/order.schema.json'' (Some exOrderCatalog) =
     Inr [\<lparr>propertyPath = ''totals'', targetSchemaPath = ''v1/primitives/money.schema.json'',
            cardinality = Many, required = False\<rparr>]
   \<and> isPrimitiveSchemaPath ''v1/primitives/money.schema.json''
   \<and> getSchemaConnectionRules exOrderLines ''v1/order/order.schema.json'' (Some exOrderCatalog) =
     Inr [\<lparr>propertyPath = ''totals'', targetSchemaPath = ''primitives/money.schema.json'',
            cardinality = Many, required = False\<rparr>]
   \<and> \<not> isPrimitiveSchemaPath ''primitives/money.schema.json''"
  by code_simp

subsection \<open>Connection validator\<close>
















lemma accepted_facts:
  assumes "validateConnection depth source target p existing schemas instances = Inr accepted"
  shows "\<exists>inst schema rules rule.
           instances source = Some inst \<and> map_of schemas (schemaPath inst) = Some schema
           \<and> getConnectionRulesForSchema schema (schemaPath inst) (Some schemas) = Inr rules
           \<and> find (\<lambda>r. propertyPath r = p) rules = Some rule
           \<and> (cardinality rule = One \<longrightarrow>
                  find (\<lambda>conn. sourceId conn = source \<and> connPropertyPath conn = p) existing = None)
           \<and> find (\<lambda>conn. sourceId conn = source \<and> targetId conn = target
                              \<and> connPropertyPath conn = p) existing = None"
proof -
  have ne: "accepted \<noteq> rejected why" for why by (simp add: accepted_def rejected_def)
  from assms obtain inst where inst: "instances source = Some inst"
    by (cases "instances source") (auto simp: validateConnection_def ne[symmetric])
  from assms inst obtain tinst where tinst: "instances target = Some tinst"
    by (cases "instances target") (auto simp: validateConnection_def ne[symmetric])
  from assms inst tinst obtain schema where
    schema: "map_of schemas (schemaPath inst) = Some schema" "truthy (Some schema)"
    by (cases "map_of schemas (schemaPath inst)")
       (auto simp: validateConnection_def ne[symmetric] split: if_splits)
  from assms inst tinst schema obtain rules where
    rules: "getConnectionRulesForSchema schema (schemaPath inst) (Some schemas) = Inr rules"
    by (cases "getConnectionRulesForSchema schema (schemaPath inst) (Some schemas)")
       (auto simp: validateConnection_def bindE_def)
  from assms inst tinst schema rules obtain rule where
    rule: "find (\<lambda>r. propertyPath r = p) rules = Some rule"
    by (cases "find (\<lambda>r. propertyPath r = p) rules")
       (auto simp: validateConnection_def bindE_def ne[symmetric])
  from assms inst tinst schema rules rule obtain ts where
    ts: "resolveTargetSchemaPath depth schemas (targetSchemaPath rule) = Inr ts"
    by (cases "resolveTargetSchemaPath depth schemas (targetSchemaPath rule)")
       (auto simp: validateConnection_def bindE_def)
  have v: "validateConnection depth source target p existing schemas instances =
      (if schemaPath tinst \<notin> set ts then Inr (rejected TargetSchemaMismatch)
       else if cardinality rule = One
               \<and> find (\<lambda>conn. sourceId conn = source \<and> connPropertyPath conn = p) existing \<noteq> None
       then Inr (rejected OneToOneOccupied)
       else if source = target then Inr (rejected SelfConnection)
       else if find (\<lambda>conn. sourceId conn = source \<and> targetId conn = target
                           \<and> connPropertyPath conn = p) existing \<noteq> None
       then Inr (rejected DuplicateConnection)
       else Inr accepted)"
    using inst tinst schema rules rule ts
    by (simp add: validateConnection_def bindE_def)
  have "(cardinality rule = One \<longrightarrow>
            find (\<lambda>conn. sourceId conn = source \<and> connPropertyPath conn = p) existing = None)
        \<and> find (\<lambda>conn. sourceId conn = source \<and> targetId conn = target
                              \<and> connPropertyPath conn = p) existing = None"
  proof (rule ccontr)
    assume "\<not> ?thesis"
    then have "\<exists>why. validateConnection depth source target p existing schemas instances
                  = Inr (rejected why)"
      unfolding v by (auto split: if_splits)
    then show False using assms ne by auto
  qed
  then show ?thesis using inst schema rules rule by blast
qed

lemma propose_preserves:
  assumes "cardinalityInvariant schemas instances conns"
  shows "cardinalityInvariant schemas instances
           (proposeConnection depth schemas instances conns proposal)"
proof -
  obtain source target p where pr: "proposal = (source, target, p)" by (cases proposal)
  show ?thesis
  proof (cases "validateConnection depth source target p conns schemas instances = Inr accepted")
    case False
    then show ?thesis using assms pr by (simp add: proposeConnection_def)
  next
    case True
    let ?new = "\<lparr>connId = source @ ''-'' @ p @ ''-'' @ target, sourceId = source,
                 targetId = target, connPropertyPath = p\<rparr>"
    have res: "proposeConnection depth schemas instances conns proposal = conns @ [?new]"
      using True pr by (simp add: proposeConnection_def)
    from accepted_facts[OF True] obtain inst schema rules rule where
      f: "instances source = Some inst" "map_of schemas (schemaPath inst) = Some schema"
         "getConnectionRulesForSchema schema (schemaPath inst) (Some schemas) = Inr rules"
         "find (\<lambda>r. propertyPath r = p) rules = Some rule"
         "cardinality rule = One \<longrightarrow>
            find (\<lambda>conn. sourceId conn = source \<and> connPropertyPath conn = p) conns = None"
         "find (\<lambda>conn. sourceId conn = source \<and> targetId conn = target
                              \<and> connPropertyPath conn = p) conns = None"
      by blast
    have dist: "distinct (map connTriple (conns @ [?new]))"
    proof -
      have "connTriple ?new \<notin> set (map connTriple conns)"
        using f(6) by (auto simp: find_None_iff connTriple_def)
      then show ?thesis using assms by (simp add: cardinalityInvariant_def)
    qed
    have card: "length (filter (\<lambda>c. sourceId c = i \<and> connPropertyPath c = q) (conns @ [?new])) \<le> 1"
      if h: "instances i = Some inst'" "map_of schemas (schemaPath inst') = Some schema'"
        "getConnectionRulesForSchema schema' (schemaPath inst') (Some schemas) = Inr rules'"
        "find (\<lambda>r. propertyPath r = q) rules' = Some rule'" "cardinality rule' = One"
      for i q inst' schema' rules' rule'
    proof (cases "i = source \<and> q = p")
      case True
      then have "rule' = rule" using h f by simp
      then have "find (\<lambda>conn. sourceId conn = source \<and> connPropertyPath conn = p) conns = None"
        using h(5) f(5) by simp
      then have "filter (\<lambda>c. sourceId c = source \<and> connPropertyPath c = p) conns = []"
        by (auto simp: find_None_iff filter_empty_conv)
      then show ?thesis using True by simp
    next
      case False
      then have "filter (\<lambda>c. sourceId c = i \<and> connPropertyPath c = q) (conns @ [?new])
                 = filter (\<lambda>c. sourceId c = i \<and> connPropertyPath c = q) conns"
        by auto
      moreover have "length (filter (\<lambda>c. sourceId c = i \<and> connPropertyPath c = q) conns) \<le> 1"
      proof -
        from assms have inv: "\<And>i p inst schema rules rule.
            instances i = Some inst \<and> map_of schemas (schemaPath inst) = Some schema
            \<and> getConnectionRulesForSchema schema (schemaPath inst) (Some schemas) = Inr rules
            \<and> find (\<lambda>r. propertyPath r = p) rules = Some rule \<and> cardinality rule = One
            \<Longrightarrow> length (filter (\<lambda>c. sourceId c = i \<and> connPropertyPath c = p) conns) \<le> 1"
          unfolding cardinalityInvariant_def by blast
        show ?thesis by (rule inv[of i inst' schema' rules' q rule']) (simp add: h)
      qed
      ultimately show ?thesis by simp
    qed
    show ?thesis
      unfolding res cardinalityInvariant_def using dist card by blast
  qed
qed

lemma foldl_propose_invariant:
  "cardinalityInvariant schemas instances start
   \<Longrightarrow> cardinalityInvariant schemas instances
         (foldl (proposeConnection depth schemas instances) start proposals)"
  by (induction proposals arbitrary: start) (auto simp: propose_preserves)

text \<open>
  Claim C1. Start from the empty connection list and let any finite sequence of proposals
  go through \<open>validateConnection\<close>, each appended only when it is accepted, with the
  instances and the catalog unchanged. In the resulting list, for every instance and every
  property whose rule on the instance's schema has cardinality \<open>one\<close>, at most one
  connection has that source and that property; and no two connections agree on source,
  target and property.
\<close>

theorem C1_validated_connections_invariant:
  "(\<forall>i p inst schema rules rule.
       instances i = Some inst \<and> map_of schemas (schemaPath inst) = Some schema
       \<and> getConnectionRulesForSchema schema (schemaPath inst) (Some schemas) = Inr rules
       \<and> find (\<lambda>r. propertyPath r = p) rules = Some rule \<and> cardinality rule = One
       \<longrightarrow> length (filter (\<lambda>c. sourceId c = i \<and> connPropertyPath c = p)
                     (foldl (proposeConnection depth schemas instances) [] proposals)) \<le> 1)
   \<and> distinct (map connTriple (foldl (proposeConnection depth schemas instances) [] proposals))"
proof -
  have start: "cardinalityInvariant schemas instances []"
    by (simp add: cardinalityInvariant_def)
  have "cardinalityInvariant schemas instances
          (foldl (proposeConnection depth schemas instances) [] proposals)"
    using start by (rule foldl_propose_invariant)
  then show ?thesis
    unfolding cardinalityInvariant_def .
qed

theorem C1_validated_connections_invariant_witness:
  "foldl (proposeConnection 5 exCatalog exInstances) []
     [(''user-1'', ''address-1'', ''address''), (''user-1'', ''address-2'', ''address'')] =
     [\<lparr>connId = ''user-1-address-address-1'', sourceId = ''user-1'',
        targetId = ''address-1'', connPropertyPath = ''address''\<rparr>]
   \<and> length (filter (\<lambda>c. sourceId c = ''user-1'' \<and> connPropertyPath c = ''address'')
        (foldl (proposeConnection 5 exCatalog exInstances) []
           [(''user-1'', ''address-1'', ''address''), (''user-1'', ''address-2'', ''address'')])) \<le> 1"
proof -
  define rules where "rules =
     [\<lparr>propertyPath = ''address'', targetSchemaPath = ''v1/user/address.schema.json'',
        cardinality = One, required = False\<rparr>,
      \<lparr>propertyPath = ''roles'', targetSchemaPath = ''v1/user/roles.schema.json'',
        cardinality = Many, required = False\<rparr>]"
  have i1: "exInstances ''user-1'' =
      Some \<lparr>instId = ''user-1'', schemaPath = ''v1/user/user.schema.json'',
             position = (0, 0), data = JObj []\<rparr>"
    by (simp add: exInstances_def)
  have s: "map_of exCatalog ''v1/user/user.schema.json'' = Some exUser"
    by (simp add: exCatalog_def)
  have r: "getConnectionRulesForSchema exUser ''v1/user/user.schema.json'' (Some exCatalog) = Inr rules"
    unfolding rules_def by code_simp
  have f: "find (\<lambda>r. propertyPath r = ''address'') rules =
      Some \<lparr>propertyPath = ''address'', targetSchemaPath = ''v1/user/address.schema.json'',
             cardinality = One, required = False\<rparr>"
    by (simp add: rules_def)
  have e: "foldl (proposeConnection 5 exCatalog exInstances) []
     [(''user-1'', ''address-1'', ''address''), (''user-1'', ''address-2'', ''address'')] =
     [\<lparr>connId = ''user-1-address-address-1'', sourceId = ''user-1'',
        targetId = ''address-1'', connPropertyPath = ''address''\<rparr>]"
    by code_simp
  note inv = C1_validated_connections_invariant[where schemas = exCatalog
      and instances = exInstances and depth = 5 and proposals =
      "[(''user-1'', ''address-1'', ''address''), (''user-1'', ''address-2'', ''address'')]",
      THEN conjunct1, rule_format,
      of "''user-1''" "\<lparr>instId = ''user-1'', schemaPath = ''v1/user/user.schema.json'',
             position = (0, 0), data = JObj []\<rparr>" exUser rules "''address''"
         "\<lparr>propertyPath = ''address'', targetSchemaPath = ''v1/user/address.schema.json'',
             cardinality = One, required = False\<rparr>"]
  have "length (filter (\<lambda>c. sourceId c = ''user-1'' \<and> connPropertyPath c = ''address'')
        (foldl (proposeConnection 5 exCatalog exInstances) []
           [(''user-1'', ''address-1'', ''address''), (''user-1'', ''address-2'', ''address'')])) \<le> 1"
    by (rule inv) (simp add: i1 s r f)
  then show ?thesis using e by simp
qed

subsection \<open>Export\<close>

lemma noOverflow_Inr [simp]: "noOverflow (Inr v)"
  by (simp add: noOverflow_def)

lemma noOverflow_TypeError [simp]: "noOverflow (Inl TypeError)"
  by (simp add: noOverflow_def)

lemma noOverflow_if:
  "(c \<Longrightarrow> noOverflow a) \<Longrightarrow> (\<not> c \<Longrightarrow> noOverflow b) \<Longrightarrow> noOverflow (if c then a else b)"
  by simp

lemma bindE_noRange:
  "noOverflow m \<Longrightarrow> (\<And>v. noOverflow (f v)) \<Longrightarrow> noOverflow (bindE m f)"
  by (cases m) (auto simp: bindE_def noOverflow_def)

lemma member_noRange: "noOverflow (member v k)"
  by (cases "(v, k)" rule: member.cases) auto

lemma someE_noRange: "(\<And>x. noOverflow (f x)) \<Longrightarrow> noOverflow (someE f xs)"
  by (induction xs) (auto intro!: bindE_noRange)

lemma everyE_noRange: "(\<And>x. noOverflow (f x)) \<Longrightarrow> noOverflow (everyE f xs)"
  by (induction xs) (auto intro!: bindE_noRange)

lemma concatE_noRange: "(\<And>x. noOverflow (f x)) \<Longrightarrow> noOverflow (concatE f xs)"
  by (induction xs) (auto intro!: bindE_noRange)

lemma foldE_noRange: "(\<And>x a. noOverflow (f x a)) \<Longrightarrow> noOverflow (foldE f xs acc)"
  by (induction xs arbitrary: acc) (auto intro!: bindE_noRange)

lemma isPrimitiveSchema_noRange: "noOverflow (isPrimitiveSchema s)"
  unfolding isPrimitiveSchema_def hasItemsRef_def hasProperties_def allOfEntryPrimitive_def
  by (auto intro!: bindE_noRange someE_noRange everyE_noRange member_noRange
      split: option.splits)

lemma isArraySchemaWithItems_noRange: "noOverflow (isArraySchemaWithItems s)"
  unfolding isArraySchemaWithItems_def hasItemsRef_def
  by (auto intro!: bindE_noRange someE_noRange member_noRange)

lemma directRefRules_noRange: "noOverflow (directRefRules sp cat reqs name ref)"
  unfolding directRefRules_def Let_def
  by (auto intro!: bindE_noRange isPrimitiveSchema_noRange isArraySchemaWithItems_noRange
      split: option.splits prod.splits)

lemma arrayItemsRules_noRange: "noOverflow (arrayItemsRules sp cat reqs name ref)"
  unfolding arrayItemsRules_def Let_def
  by (auto intro!: bindE_noRange isPrimitiveSchema_noRange split: option.splits)

lemma patternRules_noRange: "noOverflow (patternRules sp cat reqs name es)"
proof (induction es)
  case Nil
  then show ?case by simp
next
  case (Cons e es)
  obtain pattern patternDef where e: "e = (pattern, patternDef)" by (cases e)
  show ?case
    unfolding e patternRules.simps Let_def
    using Cons
    by (auto intro!: bindE_noRange member_noRange isPrimitiveSchema_noRange
        split: option.splits prod.splits)
qed

lemma processProperty_noRange: "noOverflow (processProperty sp cat reqs name v)"
  unfolding processProperty_def
  using directRefRules_noRange arrayItemsRules_noRange patternRules_noRange
  by (auto split: option.splits)

lemma getSchemaConnectionRules_noRange: "noOverflow (getSchemaConnectionRules s sp cat)"
  unfolding getSchemaConnectionRules_def getSchemaProperties_def requiredFields_def mergeAllOf_def
    Let_def
  by (auto intro!: bindE_noRange member_noRange concatE_noRange foldE_noRange
      processProperty_noRange split: option.splits json.splits)

lemma growing_Inr [simp]: "growing v (Inr (r, v')) \<longleftrightarrow> v \<subseteq> v'"
  by (simp add: growing_def)

lemma growing_bind:
  assumes "growing v m" "\<And>r v'. v \<subseteq> v' \<Longrightarrow> growing v (f (r, v'))"
  shows "growing v (bindE m f)"
proof (cases m)
  case (Inl e)
  then show ?thesis using assms(1) by (simp add: growing_def bindE_def noOverflow_def)
next
  case (Inr st)
  obtain r v' where st: "st = (r, v')" by (cases st)
  with Inr assms(1) have "v \<subseteq> v'" by (simp add: growing_def)
  then show ?thesis using assms(2)[of v' r] Inr st by (simp add: bindE_def)
qed

lemma growing_bind_plain:
  assumes "noOverflow m" "\<And>x. growing v (f x)"
  shows "growing v (bindE m f)"
  using assms by (cases m) (auto simp: bindE_def growing_def noOverflow_def)

lemma growing_mono: "growing v m \<Longrightarrow> w \<subseteq> v \<Longrightarrow> growing w m"
  by (auto simp: growing_def)

lemma buildOne_good:
  assumes "wellBehaved base rec" "base \<subseteq> v"
  shows "growing v (buildOne rec cs v)"
proof (cases cs)
  case Nil
  then show ?thesis by (simp add: buildOne_def)
next
  case (Cons c rest)
  from assms have "growing v (rec (edgeTarget c) v)"
    unfolding wellBehaved_def growing_def by blast
  then show ?thesis
    unfolding buildOne_def Cons list.case
    by (rule growing_bind) simp
qed

lemma buildMany_good:
  assumes "wellBehaved base rec" "base \<subseteq> v"
  shows "noOverflow (buildMany rec v cs)"
proof (induction cs)
  case Nil
  then show ?case by simp
next
  case (Cons c cs)
  from assms have "noOverflow (rec (edgeTarget c) v)"
    unfolding wellBehaved_def by blast
  then show ?case using Cons
    by (auto intro!: bindE_noRange split: prod.splits)
qed

lemma buildProperty_good:
  assumes "wellBehaved base rec" "base \<subseteq> v"
  shows "growing v (buildProperty rec rules outgoing vals entry (res, v))"
proof -
  obtain propName propDef where p: "entry = (propName, propDef)" by (cases entry)
  note one = buildOne_good[OF assms, of "connectionsFor propName outgoing"]
  note many = buildMany_good[OF assms, of "connectionsFor propName outgoing"]
  show ?thesis
  proof (cases "find (\<lambda>r. propertyPath r = propName) rules")
    case None
    then show ?thesis using p by (simp add: buildProperty_def)
  next
    case (Some rule)
    show ?thesis
    proof (cases "cardinality rule = One")
      case True
      have "growing v (bindE (buildOne rec (connectionsFor propName outgoing) v)
                 (\<lambda>(x, visited'). Inr (setProp propName x res, visited')))"
        using one by (rule growing_bind) simp
      then show ?thesis using p Some True by (simp add: buildProperty_def)
    next
      case False
      have "growing v (bindE (buildMany rec v (connectionsFor propName outgoing))
                 (\<lambda>items. Inr (setProp propName (JArr items) res, v)))"
        using many by (rule growing_bind_plain) simp
      then show ?thesis using p Some False by (simp add: buildProperty_def)
    qed
  qed
qed

lemma foldE_buildProperty_good:
  assumes "wellBehaved base rec"
  shows "base \<subseteq> v \<Longrightarrow> growing v (foldE (buildProperty rec rules outgoing vals) props (res, v))"
proof (induction props arbitrary: res v)
  case Nil
  then show ?case by simp
next
  case (Cons entry props)
  note step = buildProperty_good[OF assms Cons.prems, of rules outgoing vals entry res]
  show ?case
    unfolding foldE.simps
  proof (rule growing_bind[OF step])
    fix r v'
    assume sub: "v \<subseteq> v'"
    then have "base \<subseteq> v'" using Cons.prems by blast
    from Cons.IH[OF this, of r] show "growing v (foldE (buildProperty rec rules outgoing vals) props (r, v'))"
      using sub by (rule growing_mono)
  qed
qed

lemma buildBody_good:
  assumes "wellBehaved (insert node visited) rec"
  shows "growing visited (buildBody rec node nodes edges schemas visited options)"
proof -
  have loop: "growing visited
      (bindE (foldE (buildProperty rec rules outgoing vals) props (res, insert node visited))
          (\<lambda>(result, visited'). Inr (Some (JObj result), visited')))" for rules outgoing vals props res
  proof -
    have "growing (insert node visited)
            (foldE (buildProperty rec rules outgoing vals) props (res, insert node visited))"
      by (rule foldE_buildProperty_good[OF assms]) simp
    then have "growing visited
            (foldE (buildProperty rec rules outgoing vals) props (res, insert node visited))"
      by (rule growing_mono) auto
    then show ?thesis by (rule growing_bind) simp
  qed
  have inner: "growing visited
      (bindE (getSchemaConnectionRules schema sp None)
         (\<lambda>connectionRules.
            if truthy (getField schema ''properties'') \<and> isObjectType (getField schema ''properties'')
            then (case getField schema ''properties'' of
                    Some props \<Rightarrow>
                      bindE (foldE (buildProperty rec connectionRules outgoing vals)
                               (ownEntries props) (res, insert node visited))
                        (\<lambda>(result, visited'). Inr (Some (JObj result), visited'))
                  | None \<Rightarrow> Inr (Some (JObj res), insert node visited))
            else Inr (Some (JObj res), insert node visited)))" for schema sp outgoing vals res
    by (rule growing_bind_plain[OF getSchemaConnectionRules_noRange])
       (auto split: option.splits intro: loop)
  show ?thesis
    unfolding buildBody_def Let_def
    by (auto split: option.splits intro: inner)
qed

lemma build_terminates:
  "card (set (map nodeId nodes) - visited) < depth
   \<Longrightarrow> growing visited (buildObjectFromInstance depth node nodes edges schemas visited options)"
proof (induction depth arbitrary: node visited)
  case 0
  then show ?case by simp
next
  case (Suc depth)
  let ?ids = "set (map nodeId nodes)"
  let ?rec = "\<lambda>target seen. buildObjectFromInstance depth target nodes edges schemas seen options"
  show ?case
  proof (cases "node \<in> ?ids - visited")
    case True
    have "wellBehaved (insert node visited) ?rec"
      unfolding wellBehaved_def
    proof (intro allI impI)
      fix t v
      assume sub: "insert node visited \<subseteq> v"
      have "?ids - v \<subseteq> (?ids - visited) - {node}" using sub by auto
      then have "card (?ids - v) \<le> card ((?ids - visited) - {node})"
        by (intro card_mono) auto
      also have "\<dots> < card (?ids - visited)"
        using True by (intro card_Diff1_less) auto
      finally have "card (?ids - v) < depth" using Suc.prems by simp
      from Suc.IH[OF this, of t]
      show "noOverflow (?rec t v) \<and> (\<forall>r v'. ?rec t v = Inr (r, v') \<longrightarrow> v \<subseteq> v')"
        by (simp add: growing_def)
    qed
    then show ?thesis
      unfolding buildObjectFromInstance.simps by (rule buildBody_good)
  next
    case False
    then consider "node \<in> visited" | "node \<notin> visited" "find (\<lambda>n. nodeId n = node) nodes = None"
      by (auto simp: find_None_iff)
    then show ?thesis
    proof cases
      case 1
      then show ?thesis by (simp add: buildBody_def)
    next
      case 2
      then show ?thesis by (auto simp: buildBody_def Let_def)
    qed
  qed
qed

lemma exportRoots_terminates:
  "length nodes < depth \<Longrightarrow> noOverflow (exportRoots depth nodes edges schemas options ids)"
proof (induction ids)
  case Nil
  then show ?case by simp
next
  case (Cons i ids)
  have "card (set (map nodeId nodes) - {}) \<le> length nodes"
    using card_length[of "map nodeId nodes"] by simp
  then have "card (set (map nodeId nodes) - {}) < depth" using Cons.prems by simp
  from build_terminates[OF this] have "noOverflow (buildObjectFromInstance depth i nodes edges schemas {} options)"
    by (simp add: growing_def)
  then show ?case using Cons
    by (auto intro!: bindE_noRange split: prod.splits)
qed

lemma exportToJson_terminates:
  assumes "length nodes < depth"
  shows "noOverflow (exportToJson depth nodes edges schemas options)"
proof -
  have "card (set (map nodeId nodes) - {}) \<le> length nodes"
    using card_length[of "map nodeId nodes"] by simp
  then have "card (set (map nodeId nodes) - {}) < depth" using assms by simp
  from build_terminates[OF this] have b: "noOverflow (buildObjectFromInstance depth i nodes edges schemas {} opts)" for i opts
    by (simp add: growing_def)
  show ?thesis
    unfolding exportToJson_def Let_def
    by (auto intro!: bindE_noRange b exportRoots_terminates[OF assms] split: option.splits prod.splits)
qed


lemma buildMany_items:
  "buildMany rec visited cs = Inr items \<Longrightarrow>
     items = concat (map (\<lambda>c. case rec (edgeTarget c) visited of
                                  Inr (Some obj, seen) \<Rightarrow> [obj] | _ \<Rightarrow> []) cs)"
proof (induction cs arbitrary: items)
  case Nil
  then show ?case by simp
next
  case (Cons c cs)
  from Cons.prems obtain obj seen rest where
    r: "rec (edgeTarget c) visited = Inr (obj, seen)" "buildMany rec visited cs = Inr rest"
       "items = (case obj of Some x \<Rightarrow> x # rest | None \<Rightarrow> rest)"
    by (auto simp: bindE_Inr split: prod.splits)
  from Cons.IH[OF r(2)] r(1,3) show ?case by (cases obj) auto
qed

lemma many_branch_copies:
  assumes "find (\<lambda>r. propertyPath r = propName) rules = Some rule" "cardinality rule = Many"
    and "buildProperty rec rules outgoing vals (propName, propDef) (result, visited)
           = Inr (result', visited')"
  shows "visited' = visited
         \<and> result' = setProp propName
              (JArr (concat (map (\<lambda>c. case rec (edgeTarget c) visited of
                                          Inr (Some obj, seen) \<Rightarrow> [obj] | _ \<Rightarrow> [])
                               (connectionsFor propName outgoing)))) result"
proof -
  from assms obtain items where
    i: "buildMany rec visited (connectionsFor propName outgoing) = Inr items"
       "result' = setProp propName (JArr items) result" "visited' = visited"
    by (auto simp: buildProperty_def bindE_Inr)
  from buildMany_items[OF i(1)] i(2,3) show ?thesis by simp
qed

lemma one_branch_shares:
  assumes "find (\<lambda>r. propertyPath r = propName) rules = Some rule" "cardinality rule = One"
    and "connectionsFor propName outgoing = c # cs"
    and "buildProperty rec rules outgoing vals (propName, propDef) (result, visited)
           = Inr (result', visited')"
  shows "\<exists>obj. rec (edgeTarget c) visited = Inr (obj, visited')
           \<and> result' = setProp propName (case obj of Some x \<Rightarrow> x | None \<Rightarrow> JNull) result"
  using assms
  by (auto simp: buildProperty_def buildOne_def bindE_Inr split: prod.splits)

text \<open>
  Claim C5. For every list of nodes and edges, cyclic or not, \<open>exportToJson\<close> ends: a call
  stack deeper than the number of nodes is never exhausted, and neither is that of
  \<open>buildObjectFromInstance\<close> once it is deeper than the number of node identifiers not yet
  visited. Asked for an instance that is in the \<open>visited\<close> set, \<open>buildObjectFromInstance\<close>
  returns \<open>null\<close> and leaves the set as it is. In a \<open>many\<close> branch every child is built
  from the caller's set as it stands, whatever its siblings visit, the caller's set is
  unchanged afterwards, and a child that yields \<open>null\<close> is left out of the array; in a
  \<open>one\<close> branch the child is built on the caller's set and the set the child leaves is
  the caller's from then on, a \<open>null\<close> child becoming the value \<open>null\<close>.
\<close>

theorem C5_export_terminates_with_cycle_guard:
  "(length nodes < depth \<longrightarrow> exportToJson depth nodes edges schemas options \<noteq> Inl RangeError)
   \<and> (card (set (map nodeId nodes) - visited) < depth \<longrightarrow>
        buildObjectFromInstance depth node nodes edges schemas visited options \<noteq> Inl RangeError)
   \<and> (node \<in> visited \<longrightarrow>
        buildObjectFromInstance (Suc depth) node nodes edges schemas visited options
          = Inr (None, visited))
   \<and> (find (\<lambda>r. propertyPath r = propName) rules = Some rule \<and> cardinality rule = Many
        \<and> buildProperty rec rules outgoing vals (propName, propDef) (result, visited)
              = Inr (result', visited')
        \<longrightarrow> visited' = visited
            \<and> result' = setProp propName
                 (JArr (concat (map (\<lambda>c. case rec (edgeTarget c) visited of
                                             Inr (Some obj, seen) \<Rightarrow> [obj] | _ \<Rightarrow> [])
                                  (connectionsFor propName outgoing)))) result)
   \<and> (find (\<lambda>r. propertyPath r = propName) rules = Some rule \<and> cardinality rule = One
        \<and> connectionsFor propName outgoing = c # cs
        \<and> buildProperty rec rules outgoing vals (propName, propDef) (result, visited)
              = Inr (result', visited')
        \<longrightarrow> (\<exists>obj. rec (edgeTarget c) visited = Inr (obj, visited')
               \<and> result' = setProp propName (case obj of Some x \<Rightarrow> x | None \<Rightarrow> JNull) result))"
proof (intro conjI impI)
  assume "length nodes < depth"
  then show "exportToJson depth nodes edges schemas options \<noteq> Inl RangeError"
    using exportToJson_terminates by (simp add: noOverflow_def)
next
  assume "card (set (map nodeId nodes) - visited) < depth"
  from build_terminates[OF this]
  show "buildObjectFromInstance depth node nodes edges schemas visited options \<noteq> Inl RangeError"
    by (simp add: growing_def noOverflow_def)
next
  assume "node \<in> visited"
  then show "buildObjectFromInstance (Suc depth) node nodes edges schemas visited options
          = Inr (None, visited)"
    by (simp add: buildBody_def)
next
  assume h: "find (\<lambda>r. propertyPath r = propName) rules = Some rule \<and> cardinality rule = Many
        \<and> buildProperty rec rules outgoing vals (propName, propDef) (result, visited)
              = Inr (result', visited')"
  then show "visited' = visited" using many_branch_copies by blast
  from h show "result' = setProp propName
                 (JArr (concat (map (\<lambda>c. case rec (edgeTarget c) visited of
                                             Inr (Some obj, seen) \<Rightarrow> [obj] | _ \<Rightarrow> [])
                                  (connectionsFor propName outgoing)))) result"
    using many_branch_copies by blast
next
  assume "find (\<lambda>r. propertyPath r = propName) rules = Some rule \<and> cardinality rule = One
        \<and> connectionsFor propName outgoing = c # cs
        \<and> buildProperty rec rules outgoing vals (propName, propDef) (result, visited)
              = Inr (result', visited')"
  then show "\<exists>obj. rec (edgeTarget c) visited = Inr (obj, visited')
               \<and> result' = setProp propName (case obj of Some x \<Rightarrow> x | None \<Rightarrow> JNull) result"
    using one_branch_shares by blast
qed


theorem C5_export_terminates_with_cycle_guard_witness:
  "exportToJson 3 exCycleNodes exOneCycle exCycleCatalog None \<noteq> Inl RangeError
   \<and> exportToJson 3 exCycleNodes exOneCycle exCycleCatalog None =
     Inr (JArr
       [JObj [(''label'', JNull),
              (''partner'', JObj [(''partner'', JNull), (''friends'', JArr [])]),
              (''friends'', JArr [])],
        JObj [(''partner'', JObj [(''label'', JNull), (''partner'', JNull), (''friends'', JArr [])]),
              (''friends'', JArr [])]])
   \<and> buildObjectFromInstance 2 ''b-1'' exCycleNodes exOneCycle exCycleCatalog {''a-1''} None
         \<noteq> Inl RangeError
   \<and> buildObjectFromInstance 1 ''a-1'' exCycleNodes exOneCycle exCycleCatalog {''a-1'', ''b-1''} None
         = Inr (None, {''a-1'', ''b-1''})
   \<and> buildProperty (exRec exManyCycle) exRulesA (getInstanceConnections ''a-1'' exManyCycle) []
         (''friends'', JNull) ([], {''a-1''}) =
       Inr ([(''friends'', JArr [JObj [(''partner'', JNull), (''friends'', JArr [])]])], {''a-1''})
   \<and> buildProperty (exRec exOneCycle) exRulesA (getInstanceConnections ''a-1'' exOneCycle) []
         (''partner'', JNull) ([], {''a-1''}) =
       Inr ([(''partner'', JObj [(''partner'', JNull), (''friends'', JArr [])])], {''a-1'', ''b-1''})
   \<and> exRec exOneCycle ''b-1'' {''a-1''} =
       Inr (Some (JObj [(''partner'', JNull), (''friends'', JArr [])]), {''a-1'', ''b-1''})
   \<and> concat (map (\<lambda>c. case exRec exManyCycle (edgeTarget c) {''a-1''} of
                            Inr (Some obj, seen) \<Rightarrow> [obj] | _ \<Rightarrow> [])
          (connectionsFor ''friends'' (getInstanceConnections ''a-1'' exManyCycle))) =
       [JObj [(''partner'', JNull), (''friends'', JArr [])]]"
proof -
  have len: "length exCycleNodes < 3" by (simp add: exCycleNodes_def)
  have crd: "card (set (map nodeId exCycleNodes) - {''a-1''}) < 2"
    by (simp add: exCycleNodes_def exNode_def)
  have mem: "''a-1'' \<in> {''a-1'', ''b-1''}" by simp
  have fm: "find (\<lambda>r. propertyPath r = ''friends'') exRulesA =
      Some \<lparr>propertyPath = ''friends'', targetSchemaPath = ''g/b.schema.json'',
             cardinality = Many, required = False\<rparr>"
    and fo: "find (\<lambda>r. propertyPath r = ''partner'') exRulesA =
      Some \<lparr>propertyPath = ''partner'', targetSchemaPath = ''g/b.schema.json'',
             cardinality = One, required = False\<rparr>"
    by (simp_all add: exRulesA_def)
  have co: "connectionsFor ''partner'' (getInstanceConnections ''a-1'' exOneCycle) =
      [exEdge ''a-1'' ''partner'' ''b-1'']"
    by (simp add: connectionsFor_def getInstanceConnections_def exOneCycle_def exEdge_def)
  have ex: "exportToJson 3 exCycleNodes exOneCycle exCycleCatalog None =
     Inr (JArr
       [JObj [(''label'', JNull),
              (''partner'', JObj [(''partner'', JNull), (''friends'', JArr [])]),
              (''friends'', JArr [])],
        JObj [(''partner'', JObj [(''label'', JNull), (''partner'', JNull), (''friends'', JArr [])]),
              (''friends'', JArr [])]])"
    by code_simp
  have bm: "buildProperty (exRec exManyCycle) exRulesA (getInstanceConnections ''a-1'' exManyCycle) []
         (''friends'', JNull) ([], {''a-1''}) =
       Inr ([(''friends'', JArr [JObj [(''partner'', JNull), (''friends'', JArr [])]])], {''a-1''})"
    by code_simp
  have bo: "buildProperty (exRec exOneCycle) exRulesA (getInstanceConnections ''a-1'' exOneCycle) []
         (''partner'', JNull) ([], {''a-1''}) =
       Inr ([(''partner'', JObj [(''partner'', JNull), (''friends'', JArr [])])], {''a-1'', ''b-1''})"
    by code_simp
  note many = C5_export_terminates_with_cycle_guard[of exCycleNodes 3 exOneCycle exCycleCatalog None
      "{''a-1''}" "''b-1''" "''friends''" exRulesA
      "\<lparr>propertyPath = ''friends'', targetSchemaPath = ''g/b.schema.json'',
             cardinality = Many, required = False\<rparr>"
      "exRec exManyCycle" "getInstanceConnections ''a-1'' exManyCycle" "[]" JNull "[]"
      "[(''friends'', JArr [JObj [(''partner'', JNull), (''friends'', JArr [])]])]" "{''a-1''}"]
  note one = C5_export_terminates_with_cycle_guard[of exCycleNodes 2 exOneCycle exCycleCatalog None
      "{''a-1''}" "''b-1''" "''partner''" exRulesA
      "\<lparr>propertyPath = ''partner'', targetSchemaPath = ''g/b.schema.json'',
             cardinality = One, required = False\<rparr>"
      "exRec exOneCycle" "getInstanceConnections ''a-1'' exOneCycle" "[]" JNull "[]"
      "[(''partner'', JObj [(''partner'', JNull), (''friends'', JArr [])])]" "{''a-1'', ''b-1''}"
      "exEdge ''a-1'' ''partner'' ''b-1''" "[]"]
  have w1: "exportToJson 3 exCycleNodes exOneCycle exCycleCatalog None \<noteq> Inl RangeError"
    using many len by blast
  have w2: "buildObjectFromInstance 2 ''b-1'' exCycleNodes exOneCycle exCycleCatalog {''a-1''} None
         \<noteq> Inl RangeError"
    using one crd by blast
  have w3: "buildObjectFromInstance (Suc 0) ''a-1'' exCycleNodes exOneCycle exCycleCatalog
              {''a-1'', ''b-1''} None = Inr (None, {''a-1'', ''b-1''})"
    using C5_export_terminates_with_cycle_guard[of exCycleNodes 0 exOneCycle exCycleCatalog None
      "{''a-1'', ''b-1''}" "''a-1''"] mem by blast
  from one fo co bo obtain obj where
    "exRec exOneCycle (edgeTarget (exEdge ''a-1'' ''partner'' ''b-1'')) {''a-1''}
       = Inr (obj, {''a-1'', ''b-1''})"
    "[(''partner'', JObj [(''partner'', JNull), (''friends'', JArr [])])]
       = setProp ''partner'' (case obj of Some x \<Rightarrow> x | None \<Rightarrow> JNull) []"
    by auto
  then have w4: "exRec exOneCycle ''b-1'' {''a-1''} =
       Inr (Some (JObj [(''partner'', JNull), (''friends'', JArr [])]), {''a-1'', ''b-1''})"
    by (cases obj) (auto simp: exEdge_def)
  from many fm bm
  have "[(''friends'', JArr [JObj [(''partner'', JNull), (''friends'', JArr [])]])] =
      setProp ''friends''
        (JArr (concat (map (\<lambda>c. case exRec exManyCycle (edgeTarget c) {''a-1''} of
                                   Inr (Some obj, seen) \<Rightarrow> [obj] | _ \<Rightarrow> [])
                 (connectionsFor ''friends'' (getInstanceConnections ''a-1'' exManyCycle))))) []"
    by simp
  then have w5: "concat (map (\<lambda>c. case exRec exManyCycle (edgeTarget c) {''a-1''} of
                                   Inr (Some obj, seen) \<Rightarrow> [obj] | _ \<Rightarrow> [])
                 (connectionsFor ''friends'' (getInstanceConnections ''a-1'' exManyCycle))) =
      [JObj [(''partner'', JNull), (''friends'', JArr [])]]"
    by simp
  show ?thesis using w1 w2 w3 w4 w5 ex bm bo by simp
qed

subsection \<open>Import\<close>

lemma matchLoop_invariant:
  assumes "matchLoop doc keys schemas best0 = Inr best"
  shows "(best = best0 \<or> (\<exists>(p, schema) \<in> qualifying doc schemas. best = Some (p, schemaScore keys schema)))
       \<and> (qualifying doc schemas \<noteq> {} \<longrightarrow> best \<noteq> None)
       \<and> (\<forall>bp bs. best = Some (bp, bs) \<longrightarrow>
             (\<forall>(p, schema) \<in> qualifying doc schemas. \<not> scoreGreater (schemaScore keys schema) bs))
       \<and> (\<forall>p0 s0. best0 = Some (p0, s0) \<longrightarrow>
             (\<exists>bp bs. best = Some (bp, bs) \<and> (bs = s0 \<or> scoreGreater bs s0)))"
  using assms
proof (induction schemas arbitrary: best0)
  case Nil
  then show ?case by (auto simp: qualifying_def)
next
  case (Cons e schemas)
  obtain path schema where e: "e = (path, schema)" by (cases e)
  from Cons.prems e obtain ok where ok: "schemaQualifies doc schema = Inr ok"
    by (auto simp: bindE_Inr)
  define next0 where "next0 =
    (if \<not> ok then best0
     else case best0 of None \<Rightarrow> Some (path, schemaScore keys schema)
          | Some (bestPath, bestScore) \<Rightarrow>
              if scoreGreater (schemaScore keys schema) bestScore
              then Some (path, schemaScore keys schema) else best0)"
  have step: "matchLoop doc keys schemas next0 = Inr best"
    using Cons.prems e ok unfolding next0_def
    by (auto simp: bindE_def split: option.splits if_splits)
  note IH = Cons.IH[OF step]
  have q: "qualifying doc (e # schemas) =
             (if ok then insert (path, schema) (qualifying doc schemas) else qualifying doc schemas)"
    using e ok by (auto simp: qualifying_def)
  have n0: "next0 = best0 \<or> (ok \<and> next0 = Some (path, schemaScore keys schema))"
    unfolding next0_def by (auto split: option.splits)
  have n1: "ok \<Longrightarrow> next0 \<noteq> None" unfolding next0_def by (auto split: option.splits)
  have n3: "\<And>np ns. next0 = Some (np, ns) \<Longrightarrow> ok \<Longrightarrow> \<not> scoreGreater (schemaScore keys schema) ns"
    unfolding next0_def
    by (auto simp: scoreGreater_def split: option.splits if_splits)
  have n4: "\<And>p0 s0. best0 = Some (p0, s0) \<Longrightarrow> \<exists>np ns. next0 = Some (np, ns) \<and> (ns = s0 \<or> scoreGreater ns s0)"
    unfolding next0_def by (auto split: option.splits if_splits)
  show ?case
  proof (intro conjI allI impI)
    show "best = best0 \<or> (\<exists>(p, schema) \<in> qualifying doc (e # schemas). best = Some (p, schemaScore keys schema))"
      using IH n0 q by (auto split: if_splits)
  next
    assume "qualifying doc (e # schemas) \<noteq> {}"
    then show "best \<noteq> None" using IH n1 q by (auto split: if_splits)
  next
    fix bp bs assume b: "best = Some (bp, bs)"
    show "\<forall>(p, schema) \<in> qualifying doc (e # schemas). \<not> scoreGreater (schemaScore keys schema) bs"
    proof (clarify)
      fix p sch assume m: "(p, sch) \<in> qualifying doc (e # schemas)" and g: "scoreGreater (schemaScore keys sch) bs"
      from IH b have rest: "\<forall>(p, schema) \<in> qualifying doc schemas. \<not> scoreGreater (schemaScore keys schema) bs"
        by auto
      from m q have "(p, sch) \<in> qualifying doc schemas \<or> (ok \<and> sch = schema)" by (auto split: if_splits)
      then show False
      proof
        assume "(p, sch) \<in> qualifying doc schemas"
        then show False using rest g by auto
      next
        assume o: "ok \<and> sch = schema"
        then obtain np ns where nn: "next0 = Some (np, ns)" using n1 by (cases next0) auto
        from n3[OF nn] o have a: "\<not> scoreGreater (schemaScore keys schema) ns" by simp
        from IH nn b have c: "bs = ns \<or> scoreGreater bs ns" by auto
        from g o a c show False by (auto simp: scoreGreater_def split: option.splits)
      qed
    qed
  next
    fix p0 s0 assume b0: "best0 = Some (p0, s0)"
    from n4[OF b0] obtain np ns where nn: "next0 = Some (np, ns)" and a: "ns = s0 \<or> scoreGreater ns s0"
      by blast
    from IH nn obtain bp bs where b: "best = Some (bp, bs)" and c: "bs = ns \<or> scoreGreater bs ns"
      by blast
    from a c have "bs = s0 \<or> scoreGreater bs s0"
      by (auto simp: scoreGreater_def split: option.splits)
    with b show "\<exists>bp bs. best = Some (bp, bs) \<and> (bs = s0 \<or> scoreGreater bs s0)" by blast
  qed
qed


lemma everyE_True: "everyE f xs = Inr True \<Longrightarrow> \<forall>x \<in> set xs. f x = Inr True"
  by (induction xs) (auto simp: bindE_Inr split: if_splits)

lemma everyE_total: "\<forall>x \<in> set xs. \<exists>b. f x = Inr b \<Longrightarrow> \<exists>b. everyE f xs = Inr b"
  by (induction xs) (auto simp: bindE_def)

lemma schemaQualifies_True:
  assumes "schemaQualifies doc schema = Inr True"
  shows "truthy (getField schema ''properties'') \<and> getField schema ''type'' = Some (JStr ''object'')
         \<and> (\<exists>reqs. requiredProps (getField schema ''required'') = Inr reqs
                    \<and> (\<forall>r \<in> set reqs. hasProperty doc r = Inr True))"
proof -
  from assms obtain props where p: "member (Some schema) ''properties'' = Inr props"
    by (auto simp: schemaQualifies_def bindE_Inr)
  then have pg: "props = getField schema ''properties''" by (cases schema) auto
  from assms p have t: "truthy props \<and> getField schema ''type'' = Some (JStr ''object'')"
    by (auto simp: schemaQualifies_def bindE_def split: if_splits)
  with assms p obtain reqs where r: "requiredProps (getField schema ''required'') = Inr reqs"
      "everyE (hasProperty doc) reqs = Inr True"
    by (auto simp: schemaQualifies_def bindE_Inr split: if_splits)
  from everyE_True[OF r(2)] r(1) t pg show ?thesis by auto
qed

lemma hasProperty_total: "isNonNullObject doc \<Longrightarrow> \<exists>b. hasProperty doc r = Inr b"
  by (cases doc) (auto simp: hasProperty_def)

lemma schemaQualifies_total:
  assumes "catalogEntryOk schema" "isNonNullObject doc"
  shows "\<exists>b. schemaQualifies doc schema = Inr b"
proof -
  from assms(1) have m: "member (Some schema) ''properties'' = Inr (getField schema ''properties'')"
    by (cases schema) (auto simp: catalogEntryOk_def)
  from assms(1) obtain reqs where r: "requiredProps (getField schema ''required'') = Inr reqs"
    by (cases "getField schema ''required''"; cases "the (getField schema ''required'')")
       (auto simp: catalogEntryOk_def requiredProps_def)
  from everyE_total[of reqs "hasProperty doc"] hasProperty_total[OF assms(2)]
  obtain b where "everyE (hasProperty doc) reqs = Inr b" by blast
  with m r show ?thesis by (auto simp: schemaQualifies_def bindE_def)
qed

lemma matchLoop_total:
  assumes "\<forall>(p, schema) \<in> set schemas. catalogEntryOk schema" "isNonNullObject doc"
  shows "\<exists>r. matchLoop doc keys schemas best = Inr r"
  using assms(1)
proof (induction schemas arbitrary: best)
  case Nil
  then show ?case by simp
next
  case (Cons e schemas)
  obtain path schema where e: "e = (path, schema)" by (cases e)
  with Cons.prems have "catalogEntryOk schema" by simp
  from schemaQualifies_total[OF this assms(2)] obtain b where b: "schemaQualifies doc schema = Inr b" ..
  from Cons.prems have rest: "\<forall>(p, schema) \<in> set schemas. catalogEntryOk schema" by simp
  show ?case using e b Cons.IH[OF rest]
    by (auto simp: bindE_def split: option.splits)
qed

lemma findMatchingSchema_total:
  assumes "\<forall>(p, schema) \<in> set schemas. catalogEntryOk schema" "isNonNullObject doc"
  shows "\<exists>r. findMatchingSchema doc schemas = Inr r"
proof -
  from assms(2) obtain dataKeys where k: "dataKeysOf doc = Inr dataKeys"
    by (cases doc) (auto simp: dataKeysOf_def objectKeys_def bindE_def)
  from matchLoop_total[OF assms] obtain b where
    "matchLoop doc (dataKeys) schemas None = Inr b" by blast
  with k show ?thesis
    by (auto simp: findMatchingSchema_def bindE_def split: option.splits)
qed

lemma schemaScore_empty: "\<not> scoreAtLeastHalf (schemaScore [] schema)"
  by (simp add: schemaScore_def scoreAtLeastHalf_def divideCounts_def Let_def)

lemma schemaScore_Some: "keys \<noteq> [] \<Longrightarrow> \<exists>s. schemaScore keys schema = Some s"
  by (simp add: schemaScore_def divideCounts_def Let_def)

lemma findMatchingSchema_Some:
  assumes "findMatchingSchema doc schemas = Inr (Some (path, sc))"
  shows "\<exists>dataKeys schema s.
           dataKeysOf doc = Inr dataKeys \<and> (path, schema) \<in> set schemas
           \<and> schemaQualifies doc schema = Inr True
           \<and> sc = schemaScore (dataKeys) schema
           \<and> sc = Some s \<and> 1 / 2 \<le> s
           \<and> (\<forall>(p', schema') \<in> set schemas. schemaQualifies doc schema' = Inr True \<longrightarrow>
                (\<forall>s'. schemaScore (dataKeys) schema' = Some s' \<longrightarrow> s' \<le> s))"
proof -
  from assms obtain dataKeys best where k: "dataKeysOf doc = Inr dataKeys"
    and l: "matchLoop doc (dataKeys) schemas None = Inr best"
    by (auto simp: findMatchingSchema_def bindE_Inr)
  from assms k l have b: "best = Some (path, sc)" and h: "scoreAtLeastHalf sc"
    by (auto simp: findMatchingSchema_def bindE_def split: option.splits if_splits)
  note inv = matchLoop_invariant[OF l]
  from inv b obtain schema where s: "(path, schema) \<in> set schemas"
      "schemaQualifies doc schema = Inr True"
      "sc = schemaScore (dataKeys) schema"
    by (auto simp: qualifying_def)
  from h obtain s where ss: "sc = Some s" "1 / 2 \<le> s"
    by (auto simp: scoreAtLeastHalf_def split: option.splits)
  from inv b have mx: "\<forall>(p, schema) \<in> qualifying doc schemas.
       \<not> scoreGreater (schemaScore (dataKeys) schema) sc"
    by blast
  have "\<forall>(p', schema') \<in> set schemas. schemaQualifies doc schema' = Inr True \<longrightarrow>
          (\<forall>s'. schemaScore (dataKeys) schema' = Some s' \<longrightarrow> s' \<le> s)"
    using mx ss(1) by (fastforce simp: qualifying_def scoreGreater_def)
  with k s ss show ?thesis by blast
qed

lemma findMatchingSchema_None:
  assumes "findMatchingSchema doc schemas = Inr r" "dataKeysOf doc = Inr dataKeys"
  shows "r = None \<longleftrightarrow>
           \<not> (\<exists>(p, schema) \<in> set schemas. schemaQualifies doc schema = Inr True
                \<and> scoreAtLeastHalf (schemaScore (dataKeys) schema))"
proof
  assume "r = None"
  show "\<not> (\<exists>(p, schema) \<in> set schemas. schemaQualifies doc schema = Inr True
                \<and> scoreAtLeastHalf (schemaScore (dataKeys) schema))"
  proof
    assume "\<exists>(p, schema) \<in> set schemas. schemaQualifies doc schema = Inr True
                \<and> scoreAtLeastHalf (schemaScore (dataKeys) schema)"
    then obtain p schema where q: "(p, schema) \<in> qualifying doc schemas"
        and h: "scoreAtLeastHalf (schemaScore (dataKeys) schema)"
      by (auto simp: qualifying_def)
    from assms obtain best where
      l: "matchLoop doc (dataKeys) schemas None = Inr best"
      by (auto simp: findMatchingSchema_def bindE_Inr)
    note inv = matchLoop_invariant[OF l]
    from inv q obtain bp bs where b: "best = Some (bp, bs)" by (cases best) auto
    from inv b q have ng: "\<not> scoreGreater (schemaScore (dataKeys) schema) bs"
      by blast
    from inv b obtain p2 :: string and schema2 where
      bs: "bs = schemaScore (dataKeys) schema2"
      by (auto simp: qualifying_def)
    have ne: "dataKeys \<noteq> []"
      using h schemaScore_empty[of schema] by metis
    from schemaScore_Some[OF ne, of schema2] bs obtain x where x: "bs = Some x" by auto
    from h ng x have "scoreAtLeastHalf bs"
      by (auto simp: scoreAtLeastHalf_def scoreGreater_def split: option.splits)
    with assms l b \<open>r = None\<close> show False
      by (auto simp: findMatchingSchema_def bindE_def)
  qed
next
  assume n: "\<not> (\<exists>(p, schema) \<in> set schemas. schemaQualifies doc schema = Inr True
                \<and> scoreAtLeastHalf (schemaScore (dataKeys) schema))"
  show "r = None"
  proof (rule ccontr)
    assume "r \<noteq> None"
    then obtain path sc where "r = Some (path, sc)" by (cases r) auto
    with assms(1) have f: "findMatchingSchema doc schemas = Inr (Some (path, sc))" by simp
    from findMatchingSchema_Some[OF f] assms(2) n show False
      by (fastforce simp: scoreAtLeastHalf_def)
  qed
qed


lemma keeps_refl: "keeps st st" by (simp add: keeps_def)

lemma keeps_trans: "keeps a b \<Longrightarrow> keeps b c \<Longrightarrow> keeps a c"
  by (auto simp: keeps_def)

lemma importItems_keeps:
  assumes R: "\<And>item p par s c s'. rec item p par s = Inr (c, s') \<Longrightarrow> keeps s s'"
  shows "importItems rec pos childX instanceId propPath row items st = Inr st' \<Longrightarrow> keeps st st'"
proof (induction items arbitrary: row st)
  case Nil
  then show ?case by (simp add: keeps_refl)
next
  case (Cons item others)
  show ?case
  proof (cases "isNonNullObject item")
    case False
    with Cons show ?thesis by simp
  next
    case True
    with Cons.prems obtain c s1 where
      a: "rec item (childX, snd pos + row * (200 + 80)) (Some (instanceId, propPath)) st = Inr (c, s1)"
      and b: "importItems rec pos childX instanceId propPath (row + 1) others s1 = Inr st'"
      by (auto simp: bindE_Inr)
    from R[OF a] Cons.IH[OF b] show ?thesis by (rule keeps_trans)
  qed
qed

lemma importChildren_keeps:
  assumes R: "\<And>item p par s c s'. rec item p par s = Inr (c, s') \<Longrightarrow> keeps s s'"
  shows "importChildren rec dataObj pos instanceId rules childIndex st = Inr st' \<Longrightarrow> keeps st st'"
proof (induction rules arbitrary: childIndex st)
  case Nil
  then show ?case by (simp add: keeps_refl)
next
  case (Cons rule others)
  show ?case
  proof (cases "getProp dataObj (propertyPath rule)")
    case None
    with Cons show ?thesis by simp
  next
    case (Some nestedValue)
    show ?thesis
    proof (cases "nestedValue = JNull")
      case True
      with Some Cons show ?thesis by simp
    next
      case nn: False
      have red: "importChildren rec dataObj pos instanceId (rule # others) childIndex st =
          (if cardinality rule = One \<and> isPlainObject nestedValue then
            bindE (rec nestedValue (fst pos + 320 + 100, snd pos + childIndex * (200 + 80))
                     (Some (instanceId, propertyPath rule)) st)
              (\<lambda>(created, st').
                 importChildren rec dataObj pos instanceId others (childIndex + 1) st')
          else if cardinality rule = Many \<and> isArray (Some nestedValue) then
            bindE (importItems rec pos (fst pos + 320 + 100) instanceId (propertyPath rule)
                     childIndex (elements (Some nestedValue)) st)
              (\<lambda>st'. importChildren rec dataObj pos instanceId others
                        (childIndex + int (length (elements (Some nestedValue)))) st')
          else importChildren rec dataObj pos instanceId others childIndex st)"
        using Some nn by (cases nestedValue) simp_all
      note prem = Cons.prems[unfolded red]
      consider (one) "cardinality rule = One \<and> isPlainObject nestedValue"
        | (many) "\<not> (cardinality rule = One \<and> isPlainObject nestedValue)"
                 "cardinality rule = Many \<and> isArray (Some nestedValue)"
        | (skip) "\<not> (cardinality rule = One \<and> isPlainObject nestedValue)"
                 "\<not> (cardinality rule = Many \<and> isArray (Some nestedValue))"
        by blast
      then show ?thesis
      proof cases
        case one
        with prem obtain c s1 where
          a: "rec nestedValue (fst pos + 320 + 100, snd pos + childIndex * (200 + 80))
                (Some (instanceId, propertyPath rule)) st = Inr (c, s1)"
          and b: "importChildren rec dataObj pos instanceId others (childIndex + 1) s1 = Inr st'"
          by (auto simp: bindE_Inr)
        from R[OF a] Cons.IH[OF b] show ?thesis by (rule keeps_trans)
      next
        case many
        with prem obtain s1 where
          a: "importItems rec pos (fst pos + 320 + 100) instanceId (propertyPath rule)
                childIndex (elements (Some nestedValue)) st = Inr s1"
          and b: "importChildren rec dataObj pos instanceId others
                    (childIndex + int (length (elements (Some nestedValue)))) s1 = Inr st'"
          by (auto simp: bindE_Inr)
        from importItems_keeps[OF R a] Cons.IH[OF b] show ?thesis by (rule keeps_trans)
      next
        case skip
        with prem have "importChildren rec dataObj pos instanceId others childIndex st = Inr st'"
          by simp
        from Cons.IH[OF this] show ?thesis .
      qed
    qed
  qed
qed

lemma createNodeBody_cases:
  assumes "createNodeBody rec schemas dataObj pos parent st = Inr (c, st')"
  shows "(findMatchingSchema dataObj schemas = Inr None
            \<and> c = None \<and> st' = st\<lparr>impErrors := impErrors st @ [dataObj]\<rparr>)
       \<or> (\<exists>path sc node newEdges counters' rules instanceId.
             findMatchingSchema dataObj schemas = Inr (Some (path, sc))
             \<and> nodeData node = Some \<lparr>dataInstanceId = instanceId, dataSchemaPath = path,
                    dataSchemaTitle = schemaTitleOf (the (map_of schemas path)) path,
                    dataValues = Some (plainValues rules dataObj)\<rparr>
             \<and> importChildren rec dataObj pos instanceId rules 0
                  (st\<lparr>impNodes := impNodes st @ [node], impEdges := impEdges st @ newEdges,
                      impCounters := counters'\<rparr>) = Inr st')"
proof -
  from assms obtain found where f: "findMatchingSchema dataObj schemas = Inr found"
    by (auto simp: createNodeBody_def bindE_Inr)
  show ?thesis
  proof (cases found)
    case None
    with assms f show ?thesis by (simp add: createNodeBody_def bindE_def)
  next
    case (Some m)
    obtain path sc where m: "m = (path, sc)" by (cases m)
    from assms f Some m obtain schema where sch: "map_of schemas path = Some schema"
      by (auto simp: createNodeBody_def bindE_def split: option.splits)
    obtain instanceId counters' where g: "generateInstanceId (impCounters st) path = (instanceId, counters')"
      by (cases "generateInstanceId (impCounters st) path")
    from assms f Some m sch g obtain rules where
      r: "getSchemaConnectionRules schema path None = Inr rules"
      by (auto simp: createNodeBody_def bindE_Inr)
    define node where "node = \<lparr>nodeId = instanceId, nodePosition = pos,
        nodeData = Some \<lparr>dataInstanceId = instanceId, dataSchemaPath = path,
                         dataSchemaTitle = schemaTitleOf schema path,
                         dataValues = Some (plainValues rules dataObj)\<rparr>\<rparr>"
    define newEdges where "newEdges =
        (case parent of
           Some (parentId, propPath) \<Rightarrow>
             if parentId \<noteq> [] \<and> propPath \<noteq> [] then
               [\<lparr>edgeId = ''e-'' @ parentId @ ''-'' @ instanceId @ ''-'' @ propPath,
                 edgeSource = parentId, edgeTarget = instanceId,
                 edgeSourceHandle = Some propPath\<rparr>]
             else []
         | None \<Rightarrow> [])"
    from assms f Some m sch g r have
      ch: "importChildren rec dataObj pos instanceId rules 0
             (st\<lparr>impNodes := impNodes st @ [node], impEdges := impEdges st @ newEdges,
                 impCounters := counters'\<rparr>) = Inr st'"
      unfolding node_def newEdges_def
      by (auto simp: createNodeBody_def bindE_Inr Let_def)
    have nd: "nodeData node = Some \<lparr>dataInstanceId = instanceId, dataSchemaPath = path,
                    dataSchemaTitle = schemaTitleOf (the (map_of schemas path)) path,
                    dataValues = Some (plainValues rules dataObj)\<rparr>"
      by (simp add: node_def sch)
    from f Some m nd ch show ?thesis by blast
  qed
qed

lemma createNodeBody_keeps:
  assumes R: "\<And>item p par s c s'. rec item p par s = Inr (c, s') \<Longrightarrow> keeps s s'"
    and "createNodeBody rec schemas dataObj pos parent st = Inr (c, st')"
  shows "keeps st st'"
  using createNodeBody_cases[OF assms(2)]
proof (elim disjE exE conjE)
  assume "st' = st\<lparr>impErrors := impErrors st @ [dataObj]\<rparr>"
  then show ?thesis by (auto simp: keeps_def)
next
  fix path sc node newEdges counters' rules instanceId
  assume "importChildren rec dataObj pos instanceId rules 0
            (st\<lparr>impNodes := impNodes st @ [node], impEdges := impEdges st @ newEdges,
                impCounters := counters'\<rparr>) = Inr st'"
  from importChildren_keeps[OF R this] show ?thesis by (auto simp: keeps_def)
qed

lemma createNodeFromData_keeps:
  "createNodeFromData depth schemas dataObj pos parent st = Inr (c, st') \<Longrightarrow> keeps st st'"
proof (induction depth arbitrary: dataObj pos parent st c st')
  case 0
  then show ?case by simp
next
  case (Suc depth)
  from Suc.prems have "createNodeBody (createNodeFromData depth schemas) schemas dataObj pos parent st = Inr (c, st')"
    by simp
  from createNodeBody_keeps[OF _ this] Suc.IH show ?case by blast
qed

lemma createNodeFromData_unmatched:
  assumes "findMatchingSchema dataObj schemas = Inr None"
  shows "createNodeFromData (Suc depth) schemas dataObj pos parent st
           = Inr (None, st\<lparr>impErrors := impErrors st @ [dataObj]\<rparr>)"
  using assms by (simp add: createNodeBody_def bindE_def)

lemma createNodeFromData_matched:
  assumes "findMatchingSchema dataObj schemas = Inr (Some (path, sc))"
    and "createNodeFromData depth schemas dataObj pos parent st = Inr (c, st')"
  shows "\<exists>node \<in> set (impNodes st'). \<exists>d. nodeData node = Some d \<and> dataSchemaPath d = path"
proof (cases depth)
  case 0
  with assms show ?thesis by simp
next
  case (Suc k)
  with assms(2) have b: "createNodeBody (createNodeFromData k schemas) schemas dataObj pos parent st = Inr (c, st')"
    by simp
  from createNodeBody_cases[OF b] assms(1) obtain node newEdges counters' rules instanceId where
    nd: "nodeData node = Some \<lparr>dataInstanceId = instanceId, dataSchemaPath = path,
                    dataSchemaTitle = schemaTitleOf (the (map_of schemas path)) path,
                    dataValues = Some (plainValues rules dataObj)\<rparr>"
    and ch: "importChildren (createNodeFromData k schemas) dataObj pos instanceId rules 0
            (st\<lparr>impNodes := impNodes st @ [node], impEdges := impEdges st @ newEdges,
                impCounters := counters'\<rparr>) = Inr st'"
    by auto
  from importChildren_keeps[OF createNodeFromData_keeps ch] have mem: "node \<in> set (impNodes st')"
    by (auto simp: keeps_def)
  from nd have "\<exists>d. nodeData node = Some d \<and> dataSchemaPath d = path" by simp
  with mem show ?thesis by blast
qed

lemma importRoots_records:
  assumes "importRoots depth schemas x yOffset items st = Inr st'"
  shows "keeps st st'
       \<and> (\<forall>item \<in> set items. isPlainObject item \<longrightarrow>
            (findMatchingSchema item schemas = Inr None \<longrightarrow> item \<in> set (impErrors st'))
          \<and> (\<forall>path sc. findMatchingSchema item schemas = Inr (Some (path, sc)) \<longrightarrow>
                (\<exists>node \<in> set (impNodes st'). \<exists>d. nodeData node = Some d \<and> dataSchemaPath d = path)))"
  using assms
proof (induction items arbitrary: yOffset st)
  case Nil
  then show ?case by (simp add: keeps_refl)
next
  case (Cons item others)
  show ?case
  proof (cases "isPlainObject item")
    case False
    with Cons.prems have "importRoots depth schemas x yOffset others st = Inr st'" by simp
    from Cons.IH[OF this] False show ?thesis by simp
  next
    case True
    with Cons.prems obtain c s1 where
      a: "createNodeFromData depth schemas item (x, yOffset) None st = Inr (c, s1)"
      and b: "importRoots depth schemas x (yOffset + (200 + 80)) others s1 = Inr st'"
      by (auto simp: bindE_Inr)
    note k1 = createNodeFromData_keeps[OF a]
    note ih = Cons.IH[OF b]
    from ih have k2: "keeps s1 st'" by simp
    have e: "findMatchingSchema item schemas = Inr None \<Longrightarrow> item \<in> set (impErrors st')"
    proof -
      assume u: "findMatchingSchema item schemas = Inr None"
      from a obtain k where "depth = Suc k" by (cases depth) auto
      with a createNodeFromData_unmatched[OF u, of k "(x, yOffset)" None st]
      have "item \<in> set (impErrors s1)" by auto
      with k2 show ?thesis by (auto simp: keeps_def)
    qed
    have n: "\<And>path sc. findMatchingSchema item schemas = Inr (Some (path, sc)) \<Longrightarrow>
           \<exists>node \<in> set (impNodes st'). \<exists>d. nodeData node = Some d \<and> dataSchemaPath d = path"
    proof -
      fix path sc assume "findMatchingSchema item schemas = Inr (Some (path, sc))"
      from createNodeFromData_matched[OF this a] k2 show
        "\<exists>node \<in> set (impNodes st'). \<exists>d. nodeData node = Some d \<and> dataSchemaPath d = path"
        by (auto simp: keeps_def)
    qed
    from keeps_trans[OF k1 k2] ih e n show ?thesis by auto
  qed
qed

lemma importRoots_continues:
  assumes "isPlainObject item" "findMatchingSchema item schemas = Inr None"
  shows "importRoots (Suc depth) schemas x yOffset (item # others) st
           = importRoots (Suc depth) schemas x (yOffset + 280) others
               (st\<lparr>impErrors := impErrors st @ [item]\<rparr>)"
  using assms by (simp add: createNodeBody_def bindE_def)


lemma hasProperty_noRange: "noOverflow (hasProperty doc r)"
  by (cases doc) (auto simp: hasProperty_def)

lemma requiredProps_noRange: "noOverflow (requiredProps r)"
  by (auto simp: requiredProps_def split: option.splits json.splits)

lemma schemaQualifies_noRange: "noOverflow (schemaQualifies doc schema)"
  unfolding schemaQualifies_def
  by (auto intro!: bindE_noRange member_noRange requiredProps_noRange everyE_noRange
      hasProperty_noRange)

lemma matchLoop_noRange: "noOverflow (matchLoop doc keys schemas best)"
proof (induction schemas arbitrary: best)
  case Nil
  then show ?case by simp
next
  case (Cons e schemas)
  obtain path schema where e: "e = (path, schema)" by (cases e)
  show ?case unfolding e matchLoop.simps
    by (auto intro!: bindE_noRange schemaQualifies_noRange Cons split: option.splits)
qed

lemma findMatchingSchema_noRange: "noOverflow (findMatchingSchema doc schemas)"
  unfolding findMatchingSchema_def
  by (auto intro!: bindE_noRange matchLoop_noRange simp: dataKeysOf_def objectKeys_def
      split: option.splits json.splits)

lemma element_size: "v \<in> set xs \<Longrightarrow> size v < size (JArr xs)"
  using size_list_estimation'[of v xs "size v" size] by simp

lemma entry_size: "(k, v) \<in> set es \<Longrightarrow> size v < size (JObj es)"
  using size_list_estimation'[of "(k, v)" es "size v" "size_prod (\<lambda>x. 0) size"] by simp

lemma getProp_size: "getProp d k = Some v \<Longrightarrow> size v < size d"
proof (cases d)
  case (JObj es)
  assume "getProp d k = Some v"
  with JObj have "(k, v) \<in> set es" by (auto dest: map_of_SomeD)
  with JObj show ?thesis by (simp only: entry_size)
next
  case (JArr xs)
  assume "getProp d k = Some v"
  with JArr have "v \<in> set xs" by (auto dest!: map_of_SomeD set_zip_rightD)
  with JArr show ?thesis by (simp only: element_size)
qed auto

lemma importItems_noRange:
  assumes R: "\<And>item p par s. item \<in> set items \<Longrightarrow> noOverflow (rec item p par s)"
  shows "noOverflow (importItems rec pos childX instanceId propPath row items st)"
  using R
proof (induction items arbitrary: row st)
  case Nil
  then show ?case by simp
next
  case (Cons item others)
  have "\<And>r s. noOverflow (importItems rec pos childX instanceId propPath r others s)"
    using Cons by simp
  moreover have "\<And>p par s. noOverflow (rec item p par s)" using Cons.prems by simp
  ultimately show ?case
    by (auto intro!: bindE_noRange)
qed

lemma importChildren_noRange:
  assumes R: "\<And>v p par s. size v < size dataObj \<Longrightarrow> noOverflow (rec v p par s)"
  shows "noOverflow (importChildren rec dataObj pos instanceId rules childIndex st)"
proof (induction rules arbitrary: childIndex st)
  case Nil
  then show ?case by simp
next
  case (Cons rule others)
  show ?case
  proof (cases "getProp dataObj (propertyPath rule)")
    case None
    with Cons show ?thesis by simp
  next
    case (Some nestedValue)
    note sz = getProp_size[OF Some]
    have items: "noOverflow (importItems rec pos (fst pos + 320 + 100) instanceId (propertyPath rule)
                     childIndex (elements (Some nestedValue)) st)"
    proof (rule importItems_noRange)
      fix item p par s assume "item \<in> set (elements (Some nestedValue))"
      then have "size item < size nestedValue"
        by (cases nestedValue) (auto simp only: elements.simps element_size list.set)
      with sz show "noOverflow (rec item p par s)" by (intro R) simp
    qed
    show ?thesis
    proof (cases "nestedValue = JNull")
      case True
      with Some Cons show ?thesis by simp
    next
      case nn: False
      have red: "importChildren rec dataObj pos instanceId (rule # others) childIndex st =
          (if cardinality rule = One \<and> isPlainObject nestedValue then
            bindE (rec nestedValue (fst pos + 320 + 100, snd pos + childIndex * (200 + 80))
                     (Some (instanceId, propertyPath rule)) st)
              (\<lambda>(created, st').
                 importChildren rec dataObj pos instanceId others (childIndex + 1) st')
          else if cardinality rule = Many \<and> isArray (Some nestedValue) then
            bindE (importItems rec pos (fst pos + 320 + 100) instanceId (propertyPath rule)
                     childIndex (elements (Some nestedValue)) st)
              (\<lambda>st'. importChildren rec dataObj pos instanceId others
                        (childIndex + int (length (elements (Some nestedValue)))) st')
          else importChildren rec dataObj pos instanceId others childIndex st)"
        using Some nn by (cases nestedValue) simp_all
      show ?thesis unfolding red
        using items R[OF sz] Cons
        by (intro noOverflow_if bindE_noRange) auto
    qed
  qed
qed

lemma createNodeBody_noRange:
  assumes R: "\<And>v p par s. size v < size dataObj \<Longrightarrow> noOverflow (rec v p par s)"
  shows "noOverflow (createNodeBody rec schemas dataObj pos parent st)"
  unfolding createNodeBody_def Let_def
  by (auto intro!: bindE_noRange findMatchingSchema_noRange getSchemaConnectionRules_noRange
      importChildren_noRange R split: option.splits prod.splits)

lemma createNodeFromData_noRange:
  "size dataObj < depth \<Longrightarrow> noOverflow (createNodeFromData depth schemas dataObj pos parent st)"
proof (induction depth arbitrary: dataObj pos parent st)
  case 0
  then show ?case by simp
next
  case (Suc depth)
  show ?case unfolding createNodeFromData.simps
  proof (rule createNodeBody_noRange)
    fix v :: json and p par s assume "size v < size dataObj"
    with Suc.prems have "size v < depth" by simp
    then show "noOverflow (createNodeFromData depth schemas v p par s)" by (rule Suc.IH)
  qed
qed

lemma importRoots_noRange:
  "\<forall>item \<in> set items. size item < depth \<Longrightarrow>
     noOverflow (importRoots depth schemas x yOffset items st)"
proof (induction items arbitrary: yOffset st)
  case Nil
  then show ?case by simp
next
  case (Cons item others)
  then show ?case
    by (auto intro!: bindE_noRange createNodeFromData_noRange)
qed

lemma importFromJson_noRange:
  assumes "size doc < depth"
  shows "noOverflow (importFromJson depth doc schemas startPosition instanceCounters)"
proof -
  have "\<forall>item \<in> set (elements (Some doc)). size item < depth"
  proof (cases doc)
    case (JArr xs)
    with assms element_size[of _ xs] show ?thesis by fastforce
  qed auto
  with assms show ?thesis
    unfolding importFromJson_def Let_def
    by (auto intro!: bindE_noRange importRoots_noRange createNodeFromData_noRange)
qed


lemma schemaScore_quotient:
  "schemaScore dataKeys schema = Some s \<Longrightarrow>
     s = of_nat (length (filter (\<lambda>k. k \<in> set (schemaPropsOf schema)) dataKeys))
         / of_nat (max (length dataKeys) (length (schemaPropsOf schema)))"
  by (auto simp: schemaScore_def divideCounts_def Let_def split: if_splits)

lemma importItems_continues:
  assumes "isNonNullObject item" "findMatchingSchema item schemas = Inr None"
  shows "importItems (createNodeFromData (Suc depth) schemas) pos childX instanceId propPath row
             (item # others) st
           = importItems (createNodeFromData (Suc depth) schemas) pos childX instanceId propPath
               (row + 1) others (st\<lparr>impErrors := impErrors st @ [item]\<rparr>)"
  using assms by (simp add: createNodeBody_def bindE_def)

lemma importChildren_continues:
  assumes "getProp parentObj (propertyPath rule) = Some item" "cardinality rule = One"
    "isPlainObject item" "findMatchingSchema item schemas = Inr None"
  shows "importChildren (createNodeFromData (Suc depth) schemas) parentObj pos instanceId
             (rule # others) childIndex st
           = importChildren (createNodeFromData (Suc depth) schemas) parentObj pos instanceId
               others (childIndex + 1) (st\<lparr>impErrors := impErrors st @ [item]\<rparr>)"
  using assms by (cases item) (simp_all add: createNodeBody_def bindE_def)

lemma importFromJson_array:
  assumes "importFromJson depth (JArr items) schemas startPosition instanceCounters
             = Inr (result, counters')"
  shows "\<exists>st'. importRoots depth schemas (fst startPosition) (snd startPosition) items
                  \<lparr>impNodes = [], impEdges = [], impErrors = [], impCounters = instanceCounters\<rparr>
                = Inr st'
               \<and> resultErrors result = impErrors st' \<and> resultNodes result = impNodes st'
               \<and> success result = (impErrors st' = [])"
  using assms by (auto simp: importFromJson_def Let_def bindE_Inr)

lemma dataKeysOf_object:
  "dataKeysOf (JObj es) = Inr (filter (\<lambda>k. take 1 k \<noteq> ''_'') (map fst es))"
proof -
  have "startsWith k ''_'' \<longleftrightarrow> take 1 k = ''_''" for k
    by (cases k) auto
  then show ?thesis
    by (simp add: dataKeysOf_def objectKeys_def bindE_def)
qed

lemma hasProperty_object:
  "hasProperty (JObj es) (JStr name)
     = Inr (name \<in> fst ` set es \<or> name \<in> set objectPrototypeKeys)"
  by (simp add: hasProperty_def)

text \<open>
  What \<open>findMatchingSchema\<close> and the import guarantee. A schema path is returned only for a
  catalog schema whose \<open>type\<close> is \<open>object\<close>, whose \<open>properties\<close> is there, all of whose
  \<open>required\<close> names the \<open>in\<close> operator finds in the data (own or inherited), and whose score
  is at least one half and not below the score of any schema of the catalog that passes
  the same test. It returns \<open>null\<close> exactly when no schema that passes the test has a score
  of at least one half, and on an object and a catalog of well-formed entries it raises no
  exception. \<open>createNodeFromData\<close> answers \<open>null\<close> for an object without a match and
  appends one error for it; each of the three loops over siblings then goes on with the
  remaining siblings from that state. A call stack deeper than the size of the document is
  never exhausted.
\<close>

lemma matching_and_import_guarantees:
  "(findMatchingSchema doc schemas = Inr (Some (path, sc)) \<longrightarrow>
      (\<exists>dataKeys schema reqs s.
         dataKeysOf doc = Inr dataKeys \<and> (path, schema) \<in> set schemas
         \<and> getField schema ''type'' = Some (JStr ''object'')
         \<and> truthy (getField schema ''properties'')
         \<and> requiredProps (getField schema ''required'') = Inr reqs
         \<and> (\<forall>r \<in> set reqs. hasProperty doc r = Inr True)
         \<and> sc = Some s
         \<and> s = of_nat (length (filter (\<lambda>k. k \<in> set (schemaPropsOf schema)) dataKeys))
               / of_nat (max (length dataKeys) (length (schemaPropsOf schema)))
         \<and> 1 / 2 \<le> s
         \<and> (\<forall>(p', schema') \<in> qualifying doc schemas.
              \<forall>s'. schemaScore dataKeys schema' = Some s' \<longrightarrow> s' \<le> s)))
   \<and> (findMatchingSchema doc schemas = Inr found \<and> dataKeysOf doc = Inr keys \<longrightarrow>
        (found = None \<longleftrightarrow>
           \<not> (\<exists>(p', schema') \<in> qualifying doc schemas.
                 scoreAtLeastHalf (schemaScore keys schema'))))
   \<and> (isNonNullObject doc \<and> (\<forall>(p', schema') \<in> set schemas. catalogEntryOk schema') \<longrightarrow>
        (\<exists>r. findMatchingSchema doc schemas = Inr r))
   \<and> (findMatchingSchema doc schemas = Inr None \<longrightarrow>
        createNodeFromData (Suc depth) schemas doc pos parent st
          = Inr (None, st\<lparr>impErrors := impErrors st @ [doc]\<rparr>))
   \<and> (findMatchingSchema doc schemas = Inr None \<and> isPlainObject doc \<longrightarrow>
        importRoots (Suc depth) schemas x yOffset (doc # others) st
          = importRoots (Suc depth) schemas x (yOffset + 280) others
              (st\<lparr>impErrors := impErrors st @ [doc]\<rparr>))
   \<and> (findMatchingSchema doc schemas = Inr None \<and> isNonNullObject doc \<longrightarrow>
        importItems (createNodeFromData (Suc depth) schemas) pos childX instanceId propPath row
            (doc # others) st
          = importItems (createNodeFromData (Suc depth) schemas) pos childX instanceId propPath
              (row + 1) others (st\<lparr>impErrors := impErrors st @ [doc]\<rparr>))
   \<and> (findMatchingSchema doc schemas = Inr None \<and> isPlainObject doc
        \<and> getProp parentObj (propertyPath rule) = Some doc \<and> cardinality rule = One \<longrightarrow>
        importChildren (createNodeFromData (Suc depth) schemas) parentObj pos instanceId
            (rule # rules) childIndex st
          = importChildren (createNodeFromData (Suc depth) schemas) parentObj pos instanceId
              rules (childIndex + 1) (st\<lparr>impErrors := impErrors st @ [doc]\<rparr>))
   \<and> (importFromJson stack (JArr items) schemas startPosition instanceCounters
          = Inr (result, counters')
        \<and> doc \<in> set items \<and> isPlainObject doc \<longrightarrow>
        success result = (resultErrors result = [])
        \<and> (findMatchingSchema doc schemas = Inr None \<longrightarrow>
             doc \<in> set (resultErrors result) \<and> \<not> success result)
        \<and> (findMatchingSchema doc schemas = Inr (Some (path, sc)) \<longrightarrow>
             (\<exists>node \<in> set (resultNodes result).
                \<exists>d. nodeData node = Some d \<and> dataSchemaPath d = path)))
   \<and> (size doc < stack \<longrightarrow>
        importFromJson stack doc schemas startPosition instanceCounters \<noteq> Inl RangeError)"
proof (intro conjI impI)
  assume f: "findMatchingSchema doc schemas = Inr (Some (path, sc))"
  from findMatchingSchema_Some[OF f] obtain dataKeys schema s where
    k: "dataKeysOf doc = Inr dataKeys" and m: "(path, schema) \<in> set schemas"
    and q: "schemaQualifies doc schema = Inr True"
    and sc: "sc = schemaScore dataKeys schema" "sc = Some s" and h: "1 / 2 \<le> s"
    and mx: "\<forall>(p', schema') \<in> set schemas. schemaQualifies doc schema' = Inr True \<longrightarrow>
                (\<forall>s'. schemaScore dataKeys schema' = Some s' \<longrightarrow> s' \<le> s)"
    by blast
  from schemaQualifies_True[OF q] obtain reqs where
    t: "truthy (getField schema ''properties'')" "getField schema ''type'' = Some (JStr ''object'')"
    and r: "requiredProps (getField schema ''required'') = Inr reqs"
       "\<forall>r \<in> set reqs. hasProperty doc r = Inr True"
    by blast
  from sc have e: "s = of_nat (length (filter (\<lambda>k. k \<in> set (schemaPropsOf schema)) dataKeys))
               / of_nat (max (length dataKeys) (length (schemaPropsOf schema)))"
    by (intro schemaScore_quotient) simp
  from mx have mx': "\<forall>(p', schema') \<in> qualifying doc schemas.
              \<forall>s'. schemaScore dataKeys schema' = Some s' \<longrightarrow> s' \<le> s"
    by (auto simp: qualifying_def)
  from k m t r sc(2) e h mx'
  show "\<exists>dataKeys schema reqs s.
         dataKeysOf doc = Inr dataKeys \<and> (path, schema) \<in> set schemas
         \<and> getField schema ''type'' = Some (JStr ''object'')
         \<and> truthy (getField schema ''properties'')
         \<and> requiredProps (getField schema ''required'') = Inr reqs
         \<and> (\<forall>r \<in> set reqs. hasProperty doc r = Inr True)
         \<and> sc = Some s
         \<and> s = of_nat (length (filter (\<lambda>k. k \<in> set (schemaPropsOf schema)) dataKeys))
               / of_nat (max (length dataKeys) (length (schemaPropsOf schema)))
         \<and> 1 / 2 \<le> s
         \<and> (\<forall>(p', schema') \<in> qualifying doc schemas.
              \<forall>s'. schemaScore dataKeys schema' = Some s' \<longrightarrow> s' \<le> s)"
    by blast
next
  assume "findMatchingSchema doc schemas = Inr found \<and> dataKeysOf doc = Inr keys"
  then have "found = None \<longleftrightarrow>
           \<not> (\<exists>(p, schema) \<in> set schemas. schemaQualifies doc schema = Inr True
                \<and> scoreAtLeastHalf (schemaScore keys schema))"
    by (intro findMatchingSchema_None) simp_all
  then show "found = None \<longleftrightarrow>
           \<not> (\<exists>(p', schema') \<in> qualifying doc schemas.
                 scoreAtLeastHalf (schemaScore keys schema'))"
    by (auto simp: qualifying_def)
next
  assume "isNonNullObject doc \<and> (\<forall>(p', schema') \<in> set schemas. catalogEntryOk schema')"
  then show "\<exists>r. findMatchingSchema doc schemas = Inr r"
    by (intro findMatchingSchema_total) simp_all
next
  assume "findMatchingSchema doc schemas = Inr None"
  then show "createNodeFromData (Suc depth) schemas doc pos parent st
          = Inr (None, st\<lparr>impErrors := impErrors st @ [doc]\<rparr>)"
    by (rule createNodeFromData_unmatched)
next
  assume "findMatchingSchema doc schemas = Inr None \<and> isPlainObject doc"
  then show "importRoots (Suc depth) schemas x yOffset (doc # others) st
          = importRoots (Suc depth) schemas x (yOffset + 280) others
              (st\<lparr>impErrors := impErrors st @ [doc]\<rparr>)"
    by (intro importRoots_continues) simp_all
next
  assume "findMatchingSchema doc schemas = Inr None \<and> isNonNullObject doc"
  then show "importItems (createNodeFromData (Suc depth) schemas) pos childX instanceId propPath row
            (doc # others) st
          = importItems (createNodeFromData (Suc depth) schemas) pos childX instanceId propPath
              (row + 1) others (st\<lparr>impErrors := impErrors st @ [doc]\<rparr>)"
    by (intro importItems_continues) simp_all
next
  assume "findMatchingSchema doc schemas = Inr None \<and> isPlainObject doc
        \<and> getProp parentObj (propertyPath rule) = Some doc \<and> cardinality rule = One"
  then show "importChildren (createNodeFromData (Suc depth) schemas) parentObj pos instanceId
            (rule # rules) childIndex st
          = importChildren (createNodeFromData (Suc depth) schemas) parentObj pos instanceId
              rules (childIndex + 1) (st\<lparr>impErrors := impErrors st @ [doc]\<rparr>)"
    by (intro importChildren_continues) simp_all
next
  assume a: "importFromJson stack (JArr items) schemas startPosition instanceCounters
          = Inr (result, counters')
        \<and> doc \<in> set items \<and> isPlainObject doc"
  from importFromJson_array[of stack items schemas startPosition instanceCounters result counters'] a
  obtain st' where
    r: "importRoots stack schemas (fst startPosition) (snd startPosition) items
          \<lparr>impNodes = [], impEdges = [], impErrors = [], impCounters = instanceCounters\<rparr> = Inr st'"
    and eq: "resultErrors result = impErrors st'" "resultNodes result = impNodes st'"
       "success result = (impErrors st' = [])"
    by blast
  note rec = importRoots_records[OF r]
  from eq show s: "success result = (resultErrors result = [])" by simp
  {
    assume "findMatchingSchema doc schemas = Inr None"
    with rec a eq have "doc \<in> set (resultErrors result)" by auto
    with s show "doc \<in> set (resultErrors result)" and "\<not> success result" by auto
  }
  {
    assume "findMatchingSchema doc schemas = Inr (Some (path, sc))"
    with rec a eq show "\<exists>node \<in> set (resultNodes result).
                \<exists>d. nodeData node = Some d \<and> dataSchemaPath d = path"
      by auto
  }
next
  assume "size doc < stack"
  from importFromJson_noRange[OF this]
  show "importFromJson stack doc schemas startPosition instanceCounters \<noteq> Inl RangeError"
    by (simp add: noOverflow_def)
qed

lemma matching_and_import_example:
  "findMatchingSchema exAl exImportCatalog = Inr (Some (''user.schema.json'', Some 1))
   \<and> (\<exists>schema reqs. (''user.schema.json'', schema) \<in> set exImportCatalog
          \<and> getField schema ''type'' = Some (JStr ''object'')
          \<and> truthy (getField schema ''properties'')
          \<and> requiredProps (getField schema ''required'') = Inr reqs)
   \<and> findMatchingSchema exStranger exImportCatalog = Inr None
   \<and> dataKeysOf exStranger = Inr [''colour'', ''weight'']
   \<and> (''address.schema.json'', the (map_of exImportCatalog ''address.schema.json''))
         \<in> qualifying exStranger exImportCatalog
   \<and> \<not> scoreAtLeastHalf
         (schemaScore [''colour'', ''weight''] (the (map_of exImportCatalog ''address.schema.json'')))
   \<and> isNonNullObject exStranger
   \<and> createNodeFromData 1 exImportCatalog exStranger (100, 100) None exEmptyState
        = Inr (None, exEmptyState\<lparr>impErrors := [exStranger]\<rparr>)
   \<and> importRoots 1 exImportCatalog 100 100 [exStranger] exEmptyState
        = Inr (exEmptyState\<lparr>impErrors := [exStranger]\<rparr>)
   \<and> importItems (createNodeFromData 1 exImportCatalog) (100, 100) 520 ''user-1'' ''address'' 0
        [exStranger] exEmptyState
        = Inr (exEmptyState\<lparr>impErrors := [exStranger]\<rparr>)
   \<and> importChildren (createNodeFromData 1 exImportCatalog) (JObj [(''address'', exStranger)])
        (100, 100) ''user-1'' [exAddressRule] 0 exEmptyState
        = Inr (exEmptyState\<lparr>impErrors := [exStranger]\<rparr>)
   \<and> (\<exists>result counters'.
         importFromJson 5 (JArr [exStranger, exAl]) exImportCatalog (100, 100) Map.empty
           = Inr (result, counters')
         \<and> exStranger \<in> set (resultErrors result) \<and> \<not> success result
         \<and> (\<exists>node \<in> set (resultNodes result).
               \<exists>d. nodeData node = Some d \<and> dataSchemaPath d = ''user.schema.json''))
   \<and> importFromJson 40 (JArr [exStranger, exAl]) exImportCatalog (100, 100) Map.empty
        \<noteq> Inl RangeError"
proof -
  have al: "findMatchingSchema exAl exImportCatalog = Inr (Some (''user.schema.json'', Some 1))"
    by code_simp
  have st: "findMatchingSchema exStranger exImportCatalog = Inr None"
    by code_simp
  have dk: "dataKeysOf exStranger = Inr [''colour'', ''weight'']"
    by code_simp
  have plain: "isPlainObject exStranger" "isNonNullObject exStranger" "isPlainObject exAl"
    by (simp_all add: exStranger_def exAl_def)
  have ok: "\<forall>(p', schema') \<in> set exImportCatalog. catalogEntryOk schema'"
    by (simp add: exImportCatalog_def catalogEntryOk_def)
  have gp: "getProp (JObj [(''address'', exStranger)]) (propertyPath exAddressRule) = Some exStranger"
    "cardinality exAddressRule = One"
    by (simp_all add: exAddressRule_def)
  have sz: "size (JArr [exStranger, exAl]) < 40"
    by (simp add: exStranger_def exAl_def)
  have ev: "map_sum id (\<lambda>(result, counters'). True)
              (importFromJson 5 (JArr [exStranger, exAl]) exImportCatalog (100, 100) Map.empty)
            = Inr True"
    by code_simp
  then obtain result counters' where
    im: "importFromJson 5 (JArr [exStranger, exAl]) exImportCatalog (100, 100) Map.empty
           = Inr (result, counters')"
    by (cases "importFromJson 5 (JArr [exStranger, exAl]) exImportCatalog (100, 100) Map.empty")
       auto
  note user = matching_and_import_guarantees[where doc = exAl and schemas = exImportCatalog
      and path = "''user.schema.json''" and sc = "Some 1" and stack = 5
      and items = "[exStranger, exAl]" and startPosition = "(100, 100)"
      and instanceCounters = Map.empty and result = result and counters' = counters']
  note stranger = matching_and_import_guarantees[where doc = exStranger
      and schemas = exImportCatalog and found = None and keys = "[''colour'', ''weight'']"
      and depth = 0 and pos = "(100, 100)" and parent = None and st = exEmptyState
      and x = 100 and yOffset = 100 and others = "[]"
      and childX = 520 and instanceId = "''user-1''" and propPath = "''address''" and row = 0
      and parentObj = "JObj [(''address'', exStranger)]" and rule = exAddressRule
      and rules = "[]" and childIndex = 0
      and stack = 5 and items = "[exStranger, exAl]" and startPosition = "(100, 100)"
      and instanceCounters = Map.empty and result = result and counters' = counters']
  note whole = matching_and_import_guarantees[where doc = "JArr [exStranger, exAl]"
      and stack = 40 and schemas = exImportCatalog and startPosition = "(100, 100)"
      and instanceCounters = Map.empty]
  from user[THEN conjunct1, THEN mp, OF al]
  have c1: "\<exists>schema reqs. (''user.schema.json'', schema) \<in> set exImportCatalog
          \<and> getField schema ''type'' = Some (JStr ''object'')
          \<and> truthy (getField schema ''properties'')
          \<and> requiredProps (getField schema ''required'') = Inr reqs"
    by blast
  note s2 = stranger[THEN conjunct2]
  note s3 = s2[THEN conjunct2]
  note s4 = s3[THEN conjunct2]
  note s5 = s4[THEN conjunct2]
  note s6 = s5[THEN conjunct2]
  note s7 = s6[THEN conjunct2]
  note s8 = s7[THEN conjunct2]
  from s2[THEN conjunct1] st dk
  have c2: "\<not> (\<exists>(p', schema') \<in> qualifying exStranger exImportCatalog.
                 scoreAtLeastHalf (schemaScore [''colour'', ''weight''] schema'))"
    by simp
  have q: "(''address.schema.json'', the (map_of exImportCatalog ''address.schema.json''))
         \<in> qualifying exStranger exImportCatalog"
    by code_simp
  from c2 q
  have nh: "\<not> scoreAtLeastHalf
         (schemaScore [''colour'', ''weight''] (the (map_of exImportCatalog ''address.schema.json'')))"
    by blast
  from s3[THEN conjunct1] plain(2) ok
  have c3: "\<exists>r. findMatchingSchema exStranger exImportCatalog = Inr r"
    by simp
  from s4[THEN conjunct1] st
  have c4: "createNodeFromData 1 exImportCatalog exStranger (100, 100) None exEmptyState
        = Inr (None, exEmptyState\<lparr>impErrors := [exStranger]\<rparr>)"
    by (simp add: exEmptyState_def)
  from s5[THEN conjunct1] st plain(1)
  have c5: "importRoots 1 exImportCatalog 100 100 [exStranger] exEmptyState
        = Inr (exEmptyState\<lparr>impErrors := [exStranger]\<rparr>)"
    by (simp add: exEmptyState_def)
  from s6[THEN conjunct1] st plain(2)
  have c6: "importItems (createNodeFromData 1 exImportCatalog) (100, 100) 520 ''user-1'' ''address'' 0
        [exStranger] exEmptyState
        = Inr (exEmptyState\<lparr>impErrors := [exStranger]\<rparr>)"
    by (simp add: exEmptyState_def)
  from s7[THEN conjunct1] st plain(1) gp
  have c7: "importChildren (createNodeFromData 1 exImportCatalog) (JObj [(''address'', exStranger)])
        (100, 100) ''user-1'' [exAddressRule] 0 exEmptyState
        = Inr (exEmptyState\<lparr>impErrors := [exStranger]\<rparr>)"
    by (simp add: exEmptyState_def)
  have mem: "exStranger \<in> set [exStranger, exAl]" "exAl \<in> set [exStranger, exAl]"
    by simp_all
  from s8[THEN conjunct1] im st plain(1) mem(1)
  have c8: "exStranger \<in> set (resultErrors result) \<and> \<not> success result"
    by blast
  note u8 = user[THEN conjunct2, THEN conjunct2, THEN conjunct2, THEN conjunct2,
      THEN conjunct2, THEN conjunct2, THEN conjunct2, THEN conjunct1]
  from u8 im al plain(3) mem(2)
  have c9: "\<exists>node \<in> set (resultNodes result).
               \<exists>d. nodeData node = Some d \<and> dataSchemaPath d = ''user.schema.json''"
    by blast
  note w9 = whole[THEN conjunct2, THEN conjunct2, THEN conjunct2, THEN conjunct2,
      THEN conjunct2, THEN conjunct2, THEN conjunct2, THEN conjunct2]
  from w9 sz
  have c10: "importFromJson 40 (JArr [exStranger, exAl]) exImportCatalog (100, 100) Map.empty
        \<noteq> Inl RangeError"
    by simp
  from al c1 st dk q nh plain(2) c4 c5 c6 c7 im c8 c9 c10 show ?thesis by blast
qed

text \<open>
  Claim C6. The claim fails on the code where a schema requires a name that every object
  inherits. The schema below requires \<open>constructor\<close>; the data has the keys \<open>a\<close> and
  \<open>_note\<close> and no \<open>constructor\<close> of its own. \<open>prop in data\<close> finds the inherited
  \<open>constructor\<close>, so the schema passes the test for required properties,
  \<open>findMatchingSchema\<close> returns its path with score \<open>1\<close> (the key \<open>_note\<close> is not
  counted), and \<open>importFromJson\<close> reports success with one node and no error.
\<close>

theorem C6_inherited_name_passes_required:
  "findMatchingSchema exReading exSensorCatalog = Inr (Some (''s1.schema.json'', Some 1))
   \<and> map_of exSensorCatalog ''s1.schema.json'' = Some exSensor
   \<and> requiredProps (getField exSensor ''required'') = Inr [JStr ''constructor'']
   \<and> ''constructor'' \<notin> set (map fst (ownEntries exReading))
   \<and> hasProperty exReading (JStr ''constructor'') = Inr True
   \<and> dataKeysOf exReading = Inr [''a'']
   \<and> map_sum id (\<lambda>(result, counters').
          (success result, map nodeId (resultNodes result), resultErrors result))
        (importFromJson 5 exReading exSensorCatalog (100, 100) Map.empty)
       = Inr (True, [''s1-1''], [])"
  by code_simp

end
